theory Spec2Isabelle
  imports Complex_Main "HOL-Library.Log_Nat"
begin

section \<open>Python values used by the power manager\<close>

subsection \<open>Exceptions\<close>

text \<open>
  The exceptions the modelled code can raise. Every raise of the source is a branch
  of the model that returns \<open>Inl\<close> of one of these.
\<close>

datatype py_error = OverflowError | ValueError | TypeError | ZeroDivisionError

subsection \<open>Binary64 floats\<close>

text \<open>
  A Python \<open>float\<close> is an IEEE 754 binary64 value. A finite one is modelled by
  the rational number it denotes (the two zeros are identified: the program never
  observes the sign of a zero); the infinities and NaN are separate constructors.
  Every arithmetic operation of the program is the exact operation on rationals
  followed by \<open>round_double\<close>, rounding to nearest with ties to even.
\<close>

datatype pyfloat = Finite rat | PosInf | NegInf | NaN

definition pow2 :: "int \<Rightarrow> rat" where
  "pow2 k = (if 0 \<le> k then 2 ^ nat k else 1 / 2 ^ nat (- k))"

text \<open>\<open>floor_log2 a\<close> is the exponent \<open>k\<close> with \<open>2^k \<le> a < 2^(k+1)\<close>, for \<open>a > 0\<close>.\<close>

definition floor_log2 :: "rat \<Rightarrow> int" where
  "floor_log2 a =
     (let (n, d) = quotient_of a;
          k = bitlen n - bitlen d
      in if pow2 k \<le> a then k else k - 1)"

definition round_half_even :: "rat \<Rightarrow> int" where
  "round_half_even x =
     (let f = \<lfloor>x\<rfloor>; r = x - of_int f
      in if r < 1 / 2 then f
         else if 1 / 2 < r then f + 1
         else if even f then f else f + 1)"

text \<open>
  Rounding of an exact result to binary64: 53 significant bits, least exponent
  \<open>-1074\<close> (subnormals), overflow to an infinity once the rounded magnitude
  reaches \<open>2^1024\<close>. \<open>round_to_grid e\<close> rounds to the nearest multiple of \<open>2^e\<close>,
  \<open>round_mag\<close> rounds a positive magnitude.
\<close>

definition round_to_grid :: "int \<Rightarrow> rat \<Rightarrow> rat" where
  "round_to_grid e a = of_int (round_half_even (a / pow2 e)) * pow2 e"

definition round_mag :: "rat \<Rightarrow> rat" where
  "round_mag a = round_to_grid (max (floor_log2 a - 52) (- 1074)) a"

definition round_double :: "rat \<Rightarrow> pyfloat" where
  "round_double q =
     (if q = 0 then Finite 0
      else let v = round_mag \<bar>q\<bar>
           in if pow2 1024 \<le> v then (if 0 < q then PosInf else NegInf)
              else Finite (if 0 < q then v else - v))"

text \<open>
  The conversion of an \<open>int\<close> operand of a float operation: the nearest float, or
  \<open>OverflowError\<close> when the \<open>int\<close> is too large. The literal \<open>60\<close> converts to the
  float 60 exactly, which the operations below take as \<open>Finite 60\<close>.
\<close>

definition float_of_int :: "int \<Rightarrow> py_error + pyfloat" where
  "float_of_int i =
     (case round_double (of_int i) of
        Finite q \<Rightarrow> Inr (Finite q)
      | _ \<Rightarrow> Inl OverflowError)"

fun fneg :: "pyfloat \<Rightarrow> pyfloat" where
  "fneg (Finite x) = Finite (- x)"
| "fneg PosInf = NegInf"
| "fneg NegInf = PosInf"
| "fneg NaN = NaN"

fun fadd :: "pyfloat \<Rightarrow> pyfloat \<Rightarrow> pyfloat" where
  "fadd (Finite x) (Finite y) = round_double (x + y)"
| "fadd NaN _ = NaN"
| "fadd _ NaN = NaN"
| "fadd PosInf NegInf = NaN"
| "fadd NegInf PosInf = NaN"
| "fadd PosInf _ = PosInf"
| "fadd NegInf _ = NegInf"
| "fadd _ PosInf = PosInf"
| "fadd _ NegInf = NegInf"

definition fsub :: "pyfloat \<Rightarrow> pyfloat \<Rightarrow> pyfloat" where
  "fsub a b = fadd a (fneg b)"

fun fmul :: "pyfloat \<Rightarrow> pyfloat \<Rightarrow> pyfloat" where
  "fmul (Finite x) (Finite y) = round_double (x * y)"
| "fmul NaN _ = NaN"
| "fmul _ NaN = NaN"
| "fmul (Finite x) PosInf = (if x = 0 then NaN else if 0 < x then PosInf else NegInf)"
| "fmul (Finite x) NegInf = (if x = 0 then NaN else if 0 < x then NegInf else PosInf)"
| "fmul PosInf (Finite y) = (if y = 0 then NaN else if 0 < y then PosInf else NegInf)"
| "fmul NegInf (Finite y) = (if y = 0 then NaN else if 0 < y then NegInf else PosInf)"
| "fmul PosInf PosInf = PosInf"
| "fmul NegInf NegInf = PosInf"
| "fmul PosInf NegInf = NegInf"
| "fmul NegInf PosInf = NegInf"

text \<open>\<open>x / n\<close> for a float \<open>x\<close> and a non-zero \<open>int\<close> constant \<open>n\<close> of small magnitude
  (the program only divides a float by the literal \<open>60\<close>).\<close>

definition fdiv_int :: "pyfloat \<Rightarrow> int \<Rightarrow> py_error + pyfloat" where
  "fdiv_int x n =
     (if n = 0 then Inl ZeroDivisionError
      else case x of
             Finite q \<Rightarrow> Inr (round_double (q / of_int n))
           | PosInf \<Rightarrow> Inr (if 0 < n then PosInf else NegInf)
           | NegInf \<Rightarrow> Inr (if 0 < n then NegInf else PosInf)
           | NaN \<Rightarrow> Inr NaN)"

text \<open>\<open>a / b\<close> for two Python \<open>int\<close>s: the correctly rounded quotient, or an exception.\<close>

definition int_truediv :: "int \<Rightarrow> int \<Rightarrow> py_error + pyfloat" where
  "int_truediv a b =
     (if b = 0 then Inl ZeroDivisionError
      else case round_double (of_int a / of_int b) of
             Finite q \<Rightarrow> Inr (Finite q)
           | _ \<Rightarrow> Inl OverflowError)"

fun flt :: "pyfloat \<Rightarrow> pyfloat \<Rightarrow> bool" where
  "flt NaN _ = False"
| "flt _ NaN = False"
| "flt (Finite x) (Finite y) = (x < y)"
| "flt PosInf _ = False"
| "flt _ PosInf = True"
| "flt _ NegInf = False"
| "flt NegInf _ = True"

fun fle :: "pyfloat \<Rightarrow> pyfloat \<Rightarrow> bool" where
  "fle NaN _ = False"
| "fle _ NaN = False"
| "fle (Finite x) (Finite y) = (x \<le> y)"
| "fle NegInf _ = True"
| "fle _ PosInf = True"
| "fle PosInf _ = False"
| "fle _ NegInf = False"

text \<open>\<open>x >= n\<close> for a float and an \<open>int\<close>: Python compares the exact values.\<close>

fun fge_int :: "pyfloat \<Rightarrow> int \<Rightarrow> bool" where
  "fge_int (Finite x) n = (of_int n \<le> x)"
| "fge_int PosInf n = True"
| "fge_int NegInf n = False"
| "fge_int NaN n = False"

text \<open>\<open>int(x)\<close>: truncation towards zero.\<close>

fun int_of_float :: "pyfloat \<Rightarrow> py_error + int" where
  "int_of_float (Finite x) = Inr (if 0 \<le> x then \<lfloor>x\<rfloor> else \<lceil>x\<rceil>)"
| "int_of_float PosInf = Inl OverflowError"
| "int_of_float NegInf = Inl OverflowError"
| "int_of_float NaN = Inl ValueError"

text \<open>
  \<open>x % 1\<close>: the C \<open>fmod\<close> (exact, with the sign of \<open>x\<close>), to which \<open>1.0\<close> is added
  by a float addition when it is negative.
\<close>

fun fmod1 :: "pyfloat \<Rightarrow> pyfloat" where
  "fmod1 (Finite x) =
     (if 0 \<le> x then Finite (x - of_int \<lfloor>x\<rfloor>)
      else let m = x - of_int \<lceil>x\<rceil>
           in if m = 0 then Finite 0 else round_double (m + 1))"
| "fmod1 _ = NaN"

subsection \<open>Integers as text\<close>

fun dec_str :: "nat \<Rightarrow> string" where
  "dec_str n =
     (if n < 10 then [char_of (48 + n)]
      else dec_str (n div 10) @ [char_of (48 + n mod 10)])"

declare dec_str.simps [simp del]

text \<open>\<open>str(n)\<close> and the format \<open>{n:02d}\<close>: zero padded to the width 2, sign included.\<close>

definition str_int :: "int \<Rightarrow> string" where
  "str_int n = (if n < 0 then CHR ''-'' # dec_str (nat (- n)) else dec_str (nat n))"

definition fmt_02d :: "int \<Rightarrow> string" where
  "fmt_02d n =
     (if n < 0 then CHR ''-'' # dec_str (nat (- n))
      else if n < 10 then CHR ''0'' # dec_str (nat n)
      else dec_str (nat n))"

subsection \<open>Naive datetimes\<close>

text \<open>
  A \<open>datetime\<close> without time zone: the proleptic ordinal of its date and the
  fields of its time. \<open>dt_micros\<close> is its position on the microsecond axis, so
  that \<open>a - b\<close> is the \<open>timedelta\<close> of \<open>dt_micros a - dt_micros b\<close> microseconds.
\<close>

record pydatetime =
  dt_ordinal :: int
  dt_hour :: int
  dt_minute :: int
  dt_second :: int
  dt_microsecond :: int

definition valid_datetime :: "pydatetime \<Rightarrow> bool" where
  "valid_datetime t \<longleftrightarrow>
     1 \<le> dt_ordinal t \<and> dt_ordinal t \<le> 3652059 \<and>
     0 \<le> dt_hour t \<and> dt_hour t < 24 \<and>
     0 \<le> dt_minute t \<and> dt_minute t < 60 \<and>
     0 \<le> dt_second t \<and> dt_second t < 60 \<and>
     0 \<le> dt_microsecond t \<and> dt_microsecond t < 1000000"

definition dt_micros :: "pydatetime \<Rightarrow> int" where
  "dt_micros t =
     ((dt_ordinal t * 86400 + dt_hour t * 3600 + dt_minute t * 60 + dt_second t) * 1000000
      + dt_microsecond t)"

text \<open>\<open>(a - b).total_seconds()\<close>: the microseconds of the difference, divided by \<open>10**6\<close>.\<close>

definition total_seconds_between :: "pydatetime \<Rightarrow> pydatetime \<Rightarrow> py_error + pyfloat" where
  "total_seconds_between a b = int_truediv (dt_micros a - dt_micros b) 1000000"

section \<open>Configuration\<close>

definition WAIT_BEFORE :: int where
  "WAIT_BEFORE = 5"

definition WAIT_AFTER :: int where
  "WAIT_AFTER = 10"

definition EXTRUDER_TEMP :: int where
  "EXTRUDER_TEMP = 200"

definition BED_TEMP :: int where
  "BED_TEMP = 60"

section \<open>DTEKOutageManager\<close>

subsection \<open>The feed\<close>

text \<open>
  The JSON of the outage feed: a mapping from group id to the data of the group,
  with optional \<open>today\<close> and \<open>tomorrow\<close> entries, each with an optional list of
  slots. A slot has a \<open>type\<close> string and the numbers \<open>start\<close> and \<open>end\<close>; a key
  that is absent is \<open>None\<close>, as \<open>dict.get\<close> sees it.

  A JSON number decodes to an \<open>int\<close> or to a \<open>float\<close>. The feed declares the
  minutes as integers, but the decoder accepts any number, and a float may be an
  infinity or NaN: \<open>1e999\<close> decodes to \<open>inf\<close>.
\<close>

datatype json_number = JInt int | JFloat pyfloat

record slot =
  slot_type :: "string option"
  slot_start :: "json_number option"
  slot_end :: "json_number option"

record day_data =
  slots :: "slot list option"

record group_data =
  today :: "day_data option"
  tomorrow :: "day_data option"

text \<open>
  What \<open>requests.get\<close>, \<open>raise_for_status\<close> and \<open>response.json()\<close> give:
  an exception, or the decoded mapping.
\<close>

datatype http_result = Raises | JsonData "string \<rightharpoonup> group_data"

type_synonym outage = "pyfloat \<times> pyfloat"

record dtek =
  group :: string
  outages :: "string \<rightharpoonup> outage list"
  last_update :: "pydatetime option"

subsection \<open>Slot parsing\<close>

text \<open>\<open>slot.get("start", 0)\<close> and \<open>slot.get("end", 0)\<close>.\<close>

definition start_minutes :: "slot \<Rightarrow> json_number" where
  "start_minutes sl = (case slot_start sl of None \<Rightarrow> JInt 0 | Some n \<Rightarrow> n)"

definition end_minutes :: "slot \<Rightarrow> json_number" where
  "end_minutes sl = (case slot_end sl of None \<Rightarrow> JInt 0 | Some n \<Rightarrow> n)"

text \<open>\<open>v / 60\<close> for a decoded number: the division of two \<open>int\<close>s, or of a float by
  the \<open>int\<close> 60.\<close>

definition div_60 :: "json_number \<Rightarrow> py_error + pyfloat" where
  "div_60 v = (case v of JInt n \<Rightarrow> int_truediv n 60 | JFloat x \<Rightarrow> fdiv_int x 60)"

definition is_definite :: "slot \<Rightarrow> bool" where
  "is_definite sl \<longleftrightarrow> slot_type sl = Some ''Definite''"

fun parse_slots :: "slot list \<Rightarrow> py_error + outage list" where
  "parse_slots [] = Inr []"
| "parse_slots (sl # rest) =
     (if is_definite sl then
        (case div_60 (start_minutes sl) of
           Inl e \<Rightarrow> Inl e
         | Inr start_hours \<Rightarrow>
            (case div_60 (end_minutes sl) of
               Inl e \<Rightarrow> Inl e
             | Inr end_hours \<Rightarrow>
                (case parse_slots rest of
                   Inl e \<Rightarrow> Inl e
                 | Inr outs \<Rightarrow> Inr ((start_hours, end_hours) # outs))))
      else parse_slots rest)"

subsection \<open>Clock labels\<close>

text \<open>\<open>f"{int(x):02d}:{int((x % 1) * 60):02d}"\<close>\<close>

definition hhmm :: "pyfloat \<Rightarrow> py_error + string" where
  "hhmm x =
     (case int_of_float x of
        Inl e \<Rightarrow> Inl e
      | Inr h \<Rightarrow>
         (case int_of_float (fmul (fmod1 x) (Finite 60)) of
            Inl e \<Rightarrow> Inl e
          | Inr m \<Rightarrow> Inr (fmt_02d h @ '':'' @ fmt_02d m)))"

definition window_name :: "pyfloat \<Rightarrow> pyfloat \<Rightarrow> py_error + string" where
  "window_name start stop =
     (case hhmm start of
        Inl e \<Rightarrow> Inl e
      | Inr a \<Rightarrow> (case hhmm stop of Inl e \<Rightarrow> Inl e | Inr b \<Rightarrow> Inr (a @ ''-'' @ b)))"

subsection \<open>fetch_outages\<close>

definition slots_of :: "day_data option \<Rightarrow> slot list" where
  "slots_of d =
     (case d of
        None \<Rightarrow> []
      | Some dd \<Rightarrow> (case slots dd of None \<Rightarrow> [] | Some ss \<Rightarrow> ss))"

text \<open>The labels the log loop after a successful parse formats, interval by interval.\<close>

fun log_intervals :: "outage list \<Rightarrow> py_error + string list" where
  "log_intervals [] = Inr []"
| "log_intervals ((start, stop) # rest) =
     (case hhmm start of
        Inl e \<Rightarrow> Inl e
      | Inr start_str \<Rightarrow>
         (case hhmm stop of
            Inl e \<Rightarrow> Inl e
          | Inr end_str \<Rightarrow>
             (case log_intervals rest of
                Inl e \<Rightarrow> Inl e
              | Inr ls \<Rightarrow> Inr ((start_str @ '' - '' @ end_str) # ls))))"

text \<open>
  \<open>fetch_outages\<close> returns its boolean and the manager it leaves. Every exception
  inside its \<open>try\<close> is caught and gives \<open>False\<close>; the schedule is assigned
  after both days have been parsed, the \<open>today\<close> list first, and before the log
  loop, so that an exception of the log loop gives \<open>False\<close> with the new schedule
  in place.
\<close>

definition fetch_outages :: "dtek \<Rightarrow> http_result \<Rightarrow> pydatetime \<Rightarrow> bool \<times> dtek" where
  "fetch_outages d response now =
     (case response of
        Raises \<Rightarrow> (False, d)
      | JsonData data \<Rightarrow>
         (case data (group d) of
            None \<Rightarrow> (False, d)
          | Some group_data \<Rightarrow>
             (case parse_slots (slots_of (today group_data)) of
                Inl e \<Rightarrow> (False, d)
              | Inr t \<Rightarrow>
                 (case parse_slots (slots_of (tomorrow group_data)) of
                    Inl e \<Rightarrow> (False, d)
                  | Inr tm \<Rightarrow>
                     (let d' = d\<lparr>outages := [''today'' \<mapsto> t, ''tomorrow'' \<mapsto> tm],
                                  last_update := Some now\<rparr>
                      in case log_intervals (t @ tm) of
                           Inl e \<Rightarrow> (False, d')
                         | Inr ls \<Rightarrow> (True, d'))))))"

subsection \<open>The window evaluator\<close>

definition get_current_period :: "pydatetime \<Rightarrow> string" where
  "get_current_period now = (if dt_hour now = 23 then ''tomorrow'' else ''today'')"

text \<open>\<open>now.hour + now.minute / 60\<close>: the seconds of \<open>now\<close> are not read.\<close>

definition current_hour :: "pydatetime \<Rightarrow> py_error + pyfloat" where
  "current_hour now =
     (case int_truediv (dt_minute now) 60 of
        Inl e \<Rightarrow> Inl e
      | Inr f \<Rightarrow>
         (case float_of_int (dt_hour now) of
            Inl e \<Rightarrow> Inl e
          | Inr h \<Rightarrow> Inr (fadd h f)))"

text \<open>\<open>start - (WAIT_BEFORE / 60)\<close>\<close>

definition pause_point :: "pyfloat \<Rightarrow> py_error + pyfloat" where
  "pause_point start =
     (case int_truediv WAIT_BEFORE 60 of
        Inl e \<Rightarrow> Inl e
      | Inr w \<Rightarrow> Inr (fsub start w))"

text \<open>\<open>(b - a) * 60\<close>, the minutes from the hour \<open>a\<close> to the hour \<open>b\<close>.\<close>

definition minutes_between :: "pyfloat \<Rightarrow> pyfloat \<Rightarrow> pyfloat" where
  "minutes_between a b = fmul (fsub b a) (Finite 60)"

type_synonym signal = "bool \<times> string option \<times> pyfloat option"

text \<open>The \<open>for start, end in outages\<close> loop, and the \<open>return\<close> after it.\<close>

fun danger_loop :: "pyfloat \<Rightarrow> outage list \<Rightarrow> py_error + signal" where
  "danger_loop ch [] = Inr (False, None, None)"
| "danger_loop ch ((start, stop) # rest) =
     (case pause_point start of
        Inl e \<Rightarrow> Inl e
      | Inr pp \<Rightarrow>
         (case window_name start stop of
            Inl e \<Rightarrow> Inl e
          | Inr name \<Rightarrow>
             if flt ch pp then
               (let minutes_until_pause = minutes_between ch pp
                in if fle minutes_until_pause (Finite 1)
                   then Inr (True, Some name, Some minutes_until_pause)
                   else Inr (False, None, None))
             else if flt ch stop then
               (let minutes_until_end = minutes_between ch stop
                in Inr (True, Some name, Some minutes_until_end))
             else danger_loop ch rest))"

text \<open>
  \<open>get_next_danger_window\<close> reads the clock twice: \<open>now\<close> for the hour of day,
  and, inside \<open>get_current_period\<close>, \<open>now_period\<close>.
\<close>

definition get_next_danger_window :: "dtek \<Rightarrow> pydatetime \<Rightarrow> pydatetime \<Rightarrow> py_error + signal" where
  "get_next_danger_window d now now_period =
     (case current_hour now of
        Inl e \<Rightarrow> Inl e
      | Inr ch \<Rightarrow>
         (let period = get_current_period now_period;
              outs = (case outages d period of None \<Rightarrow> [] | Some l \<Rightarrow> l)
          in danger_loop ch outs))"

section \<open>MoonrakerClient\<close>

text \<open>
  The printer is reached through \<open>_call_script\<close>, which sends one G-code script
  and returns whether the request succeeded (it catches every exception). The
  outcome of each request is an input of the model; the scripts sent, in order,
  are its output.
\<close>

definition gcode_pause :: string where
  "gcode_pause = ''PAUSE''"

definition gcode_resume :: string where
  "gcode_resume = ''RESUME''"

definition gcode_heat :: string where
  "gcode_heat = ''M104 S'' @ str_int EXTRUDER_TEMP @ [CHR 0x0A] @ ''M140 S'' @ str_int BED_TEMP"

definition gcode_park :: string where
  "gcode_park = ''M140 S40'' @ [CHR 0x0A] @ ''M104 S40''"

text \<open>
  The outside world during one call of \<open>check_and_manage\<close>: the clock readings
  in the order the code takes them, and the outcome of each script it may send.
\<close>

record world =
  now_window :: pydatetime
  now_period :: pydatetime
  pause_ok :: bool
  now_pause :: pydatetime
  park_ok :: bool
  now_wait :: pydatetime
  heat_ok :: bool
  resume_ok :: bool

definition pause_print :: "world \<Rightarrow> bool \<times> string list" where
  "pause_print w = (pause_ok w, [gcode_pause])"

definition resume_print :: "world \<Rightarrow> bool \<times> string list" where
  "resume_print w =
     (if \<not> heat_ok w then (False, [gcode_heat])
      else (resume_ok w, [gcode_heat, gcode_resume]))"

definition set_heaters_off :: "world \<Rightarrow> bool \<times> string list" where
  "set_heaters_off w = (park_ok w, [gcode_park])"

section \<open>PrinterPowerManager\<close>

record manager =
  dtek_mgr :: dtek
  is_paused :: bool
  pause_start_time :: "pydatetime option"
  current_outage :: "string option"

definition init_manager :: "string \<Rightarrow> manager" where
  "init_manager g =
     \<lparr>dtek_mgr = \<lparr>group = g, outages = Map.empty, last_update = None\<rparr>,
      is_paused = False, pause_start_time = None, current_outage = None\<rparr>"

text \<open>
  \<open>(datetime.now() - self.pause_start_time).total_seconds() / 60\<close>; the
  subtraction raises \<open>TypeError\<close> when no start time is stored.
\<close>

definition time_paused :: "pydatetime \<Rightarrow> pydatetime option \<Rightarrow> py_error + pyfloat" where
  "time_paused now t0 =
     (case t0 of
        None \<Rightarrow> Inl TypeError
      | Some t \<Rightarrow>
         (case total_seconds_between now t of
            Inl e \<Rightarrow> Inl e
          | Inr secs \<Rightarrow> fdiv_int secs 60))"

text \<open>
  One call of \<open>check_and_manage\<close>: the manager it leaves and the scripts it sent,
  or the exception it raises. An exception can only come from the evaluator or
  from the elapsed-time computation, both before any script is sent and before
  any field is assigned.
\<close>

definition check_and_manage :: "manager \<Rightarrow> world \<Rightarrow> py_error + manager \<times> string list" where
  "check_and_manage m w =
     (case get_next_danger_window (dtek_mgr m) (now_window w) (now_period w) of
        Inl e \<Rightarrow> Inl e
      | Inr (is_approaching, name, minutes_until) \<Rightarrow>
         if is_approaching \<and> \<not> is_paused m then
           (let (ok, sent) = pause_print w
            in if ok then
                 Inr (m\<lparr>is_paused := True,
                        pause_start_time := Some (now_pause w),
                        current_outage := name\<rparr>,
                      sent @ snd (set_heaters_off w))
               else Inr (m, sent))
         else if is_paused m then
           (case time_paused (now_wait w) (pause_start_time m) of
              Inl e \<Rightarrow> Inl e
            | Inr t \<Rightarrow>
               if fge_int t WAIT_AFTER then
                 (let (ok, sent) = resume_print w
                  in if ok then
                       Inr (m\<lparr>is_paused := False,
                              pause_start_time := None,
                              current_outage := None\<rparr>,
                            sent)
                     else Inr (m, sent))
               else Inr (m, []))
         else Inr (m, []))"

text \<open>\<open>update_outages\<close>: the result of the fetch is dropped.\<close>

definition update_outages :: "manager \<Rightarrow> http_result \<Rightarrow> pydatetime \<Rightarrow> manager" where
  "update_outages m response now = m\<lparr>dtek_mgr := snd (fetch_outages (dtek_mgr m) response now)\<rparr>"

section \<open>Vocabulary of the properties\<close>

fun is_finite :: "pyfloat \<Rightarrow> bool" where
  "is_finite (Finite x) = True"
| "is_finite _ = False"

text \<open>
  \<open>quotient_60 v\<close> is the float \<open>v / 60\<close> of a decoded number, and \<open>fits_float v\<close>
  says that the division does not raise: an \<open>int\<close> beyond \<open>60 * 2^1023\<close> in
  magnitude has a quotient too large for a float.
\<close>

fun quotient_60 :: "json_number \<Rightarrow> pyfloat" where
  "quotient_60 (JInt n) = round_double (of_int n / 60)"
| "quotient_60 (JFloat (Finite q)) = round_double (q / 60)"
| "quotient_60 (JFloat PosInf) = PosInf"
| "quotient_60 (JFloat NegInf) = NegInf"
| "quotient_60 (JFloat NaN) = NaN"

fun fits_float :: "json_number \<Rightarrow> bool" where
  "fits_float (JInt n) \<longleftrightarrow> \<bar>n\<bar> \<le> 60 * 2 ^ 1023"
| "fits_float (JFloat x) \<longleftrightarrow> True"

text \<open>A slot, and the data of one group in a response, with integer minutes.\<close>

fun is_int :: "json_number \<Rightarrow> bool" where
  "is_int (JInt n) = True"
| "is_int (JFloat x) = False"

definition int_minutes :: "slot \<Rightarrow> bool" where
  "int_minutes sl \<longleftrightarrow> is_int (start_minutes sl) \<and> is_int (end_minutes sl)"

definition int_feed :: "http_result \<Rightarrow> string \<Rightarrow> bool" where
  "int_feed response g =
     (case response of
        Raises \<Rightarrow> True
      | JsonData data \<Rightarrow>
         (case data g of
            None \<Rightarrow> True
          | Some gd \<Rightarrow>
             list_all int_minutes (slots_of (today gd)) \<and>
             list_all int_minutes (slots_of (tomorrow gd))))"

definition finite_outage :: "outage \<Rightarrow> bool" where
  "finite_outage iv \<longleftrightarrow> is_finite (fst iv) \<and> is_finite (snd iv)"

text \<open>
  An interval is already past at the hour \<open>ch\<close> when the loop of the evaluator
  falls through both of its tests and goes on to the next interval.
\<close>

definition already_past :: "pyfloat \<Rightarrow> outage \<Rightarrow> bool" where
  "already_past ch iv \<longleftrightarrow>
     finite_outage iv \<and>
     (case pause_point (fst iv) of
        Inl e \<Rightarrow> False
      | Inr pp \<Rightarrow> \<not> flt ch pp \<and> \<not> flt ch (snd iv))"

text \<open>The scripts a cycle sent and the manager it left; a cycle that raised sent
  nothing and assigned nothing.\<close>

definition scripts_sent :: "py_error + manager \<times> string list \<Rightarrow> string list" where
  "scripts_sent r = (case r of Inl e \<Rightarrow> [] | Inr (m', sent) \<Rightarrow> sent)"

definition state_after :: "manager \<Rightarrow> py_error + manager \<times> string list \<Rightarrow> manager" where
  "state_after m r = (case r of Inl e \<Rightarrow> m | Inr (m', sent) \<Rightarrow> m')"

text \<open>\<open>resume_print\<close> was called exactly when its first script, the heat-up, was sent.\<close>

definition pause_issued :: "string list \<Rightarrow> bool" where
  "pause_issued sent \<longleftrightarrow> gcode_pause \<in> set sent"

definition resume_issued :: "string list \<Rightarrow> bool" where
  "resume_issued sent \<longleftrightarrow> gcode_heat \<in> set sent \<or> gcode_resume \<in> set sent"

definition coupled :: "manager \<Rightarrow> bool" where
  "coupled m \<longleftrightarrow> (is_paused m \<longleftrightarrow> pause_start_time m \<noteq> None)"

text \<open>
  Successive polls of the daemon loop, without the midnight refresh: an exception
  of a cycle is caught by the loop, which goes on with the manager as it is.
\<close>

fun run_polls :: "manager \<Rightarrow> world list \<Rightarrow> manager \<times> string list list" where
  "run_polls m [] = (m, [])"
| "run_polls m (w # ws) =
     (let r = check_and_manage m w;
          (m', sents) = run_polls (state_after m r) ws
      in (m', scripts_sent r # sents))"

subsection \<open>Concrete situations\<close>

text \<open>
  A day with the single window 16:00-19:00, a day with the windows 08:00-12:00 and
  16:00-19:00, the instants of one calendar day, a manager that is idle, one that
  was paused at 15:55:00, and a world in which every clock reading is the same
  instant and every script succeeds.
\<close>

definition one_window :: dtek where
  "one_window =
     \<lparr>group = ''1.1'',
      outages = [''today'' \<mapsto> [(Finite 16, Finite 19)], ''tomorrow'' \<mapsto> []],
      last_update = None\<rparr>"

definition two_windows :: dtek where
  "two_windows =
     \<lparr>group = ''1.1'',
      outages = [''today'' \<mapsto> [(Finite 8, Finite 12), (Finite 16, Finite 19)],
                 ''tomorrow'' \<mapsto> []],
      last_update = None\<rparr>"

definition clock :: "int \<Rightarrow> int \<Rightarrow> int \<Rightarrow> pydatetime" where
  "clock h m s =
     \<lparr>dt_ordinal = 739200, dt_hour = h, dt_minute = m, dt_second = s, dt_microsecond = 0\<rparr>"

definition idle_mgr :: manager where
  "idle_mgr =
     \<lparr>dtek_mgr = one_window, is_paused = False, pause_start_time = None,
      current_outage = None\<rparr>"

definition paused_mgr :: manager where
  "paused_mgr =
     \<lparr>dtek_mgr = one_window, is_paused = True, pause_start_time = Some (clock 15 55 0),
      current_outage = Some ''16:00-19:00''\<rparr>"

definition calm_world :: "pydatetime \<Rightarrow> world" where
  "calm_world t =
     \<lparr>now_window = t, now_period = t, pause_ok = True, now_pause = t, park_ok = True,
      now_wait = t, heat_ok = True, resume_ok = True\<rparr>"

definition mk_slot :: "string \<Rightarrow> int \<Rightarrow> int \<Rightarrow> slot" where
  "mk_slot ty s e =
     \<lparr>slot_type = Some ty, slot_start = Some (JInt s), slot_end = Some (JInt e)\<rparr>"

definition huge_minutes :: int where
  "huge_minutes = 60 * 2 ^ 1024"

text \<open>
  Two responses: one whose slot starts at an \<open>int\<close> too large for a float, and one
  whose slot starts at the float \<open>inf\<close>, the JSON number \<open>1e999\<close>.
\<close>

definition overflow_feed :: http_result where
  "overflow_feed =
     JsonData [''1.1'' \<mapsto>
       \<lparr>today = Some \<lparr>slots = Some [mk_slot ''Definite'' huge_minutes 0]\<rparr>,
        tomorrow = None\<rparr>]"

definition inf_feed :: http_result where
  "inf_feed =
     JsonData [''1.1'' \<mapsto>
       \<lparr>today = Some \<lparr>slots = Some
          [\<lparr>slot_type = Some ''Definite'', slot_start = Some (JFloat PosInf),
            slot_end = Some (JInt 0)\<rparr>]\<rparr>,
        tomorrow = None\<rparr>]"

text \<open>A world in which the \<open>RESUME\<close> script fails.\<close>

definition failing_world :: "pydatetime \<Rightarrow> world" where
  "failing_world t = (calm_world t)\<lparr>resume_ok := False\<rparr>"

section \<open>Facts about rounding\<close>

subsection \<open>Powers of two and the binary exponent\<close>

lemma pow2_powi: "pow2 k = 2 powi k"
  by (simp add: pow2_def power_int_def inverse_eq_divide power_one_over)

lemma pow2_pos [simp]: "0 < pow2 k"
  by (simp add: pow2_powi)

lemma pow2_nonneg [simp]: "0 \<le> pow2 k"
  using pow2_pos[of k] by (rule less_imp_le)

lemma pow2_neq0 [simp]: "pow2 k \<noteq> 0"
  by (simp add: pow2_def)

lemma pow2_add: "pow2 (a + b) = pow2 a * pow2 b"
  by (simp add: pow2_powi power_int_add)

lemma pow2_diff: "pow2 (a - b) = pow2 a / pow2 b"
  by (simp add: pow2_powi power_int_diff)

lemma pow2_le_iff [simp]: "pow2 a \<le> pow2 b \<longleftrightarrow> a \<le> b"
  unfolding pow2_powi
  by (metis linorder_not_less one_less_numeral_iff power_int_increasing power_int_strict_increasing semiring_norm(76) less_imp_le)

lemma pow2_less_iff [simp]: "pow2 a < pow2 b \<longleftrightarrow> a < b"
  by (metis pow2_le_iff linorder_not_less)

lemma pow2_nat: "0 \<le> k \<Longrightarrow> pow2 k = of_int (2 ^ nat k)"
  by (simp add: pow2_def)

lemma pow2_0 [simp]: "pow2 0 = 1"
  by (simp add: pow2_def)

lemma floor_log2_bounds:
  assumes "0 < a"
  shows "pow2 (floor_log2 a) \<le> a \<and> a < pow2 (floor_log2 a + 1)"
proof -
  obtain n d where q: "quotient_of a = (n, d)" by (cases "quotient_of a")
  have d: "0 < d" using q by (rule quotient_of_denom_pos)
  have a: "a = of_int n / of_int d" using q by (rule quotient_of_div)
  have n: "0 < n" using assms d a by (simp add: zero_less_divide_iff)
  let ?bn = "bitlen n" and ?bd = "bitlen d"
  have bn1: "1 \<le> ?bn" using n by (simp add: bitlen_alt_def)
  have bd1: "1 \<le> ?bd" using d by (simp add: bitlen_alt_def)
  have nlo: "pow2 (?bn - 1) \<le> of_int n"
    using bitlen_bounds[OF n] bn1 by (simp add: pow2_nat)
  have nhi: "of_int n < pow2 ?bn"
    using bitlen_bounds[OF n] bn1 by (simp add: pow2_nat)
  have dlo: "pow2 (?bd - 1) \<le> of_int d"
    using bitlen_bounds[OF d] bd1 by (simp add: pow2_nat)
  have dhi: "of_int d < pow2 ?bd"
    using bitlen_bounds[OF d] bd1 by (simp add: pow2_nat)
  have dpos: "(0::rat) < of_int d" using d by simp
  have up: "a < pow2 (?bn - ?bd + 1)"
  proof -
    have "a * pow2 (?bd - 1) \<le> a * of_int d"
      using dlo assms by (simp add: mult_left_mono)
    also have "\<dots> = of_int n" using a dpos by simp
    also have "\<dots> < pow2 ?bn" by (rule nhi)
    finally have "a * pow2 (?bd - 1) < pow2 ?bn" .
    then have "a < pow2 ?bn / pow2 (?bd - 1)"
      by (simp add: pos_less_divide_eq)
    then show ?thesis
      by (simp add: pow2_diff[symmetric] algebra_simps)
  qed
  have lo: "pow2 (?bn - ?bd - 1) \<le> a"
  proof -
    have "pow2 (?bn - 1) \<le> of_int n" by (rule nlo)
    also have "\<dots> = a * of_int d" using a dpos by simp
    also have "\<dots> \<le> a * pow2 ?bd" using dhi assms by (simp add: mult_left_mono)
    finally have "pow2 (?bn - 1) / pow2 ?bd \<le> a"
      by (simp add: pos_divide_le_eq)
    then show ?thesis
      by (simp add: pow2_diff[symmetric] algebra_simps)
  qed
  show ?thesis
    using up lo unfolding floor_log2_def q by (simp add: Let_def)
qed

lemma floor_log2_unique:
  assumes "0 < a" "pow2 k \<le> a" "a < pow2 (k + 1)"
  shows "floor_log2 a = k"
proof -
  have b: "pow2 (floor_log2 a) \<le> a" "a < pow2 (floor_log2 a + 1)"
    using floor_log2_bounds[OF assms(1)] by simp_all
  have "pow2 k < pow2 (floor_log2 a + 1)" using assms(2) b(2) by (rule le_less_trans)
  moreover have "pow2 (floor_log2 a) < pow2 (k + 1)" using b(1) assms(3) by (rule le_less_trans)
  ultimately show ?thesis by simp
qed

lemma rhe_cases: "round_half_even x = \<lfloor>x\<rfloor> \<or> round_half_even x = \<lfloor>x\<rfloor> + 1"
  by (simp add: round_half_even_def Let_def)

lemma rhe_lower: "x - 1 / 2 \<le> of_int (round_half_even x)"
  unfolding round_half_even_def Let_def
  by (auto simp: algebra_simps) linarith+

lemma rhe_upper: "of_int (round_half_even x) \<le> x + 1 / 2"
  unfolding round_half_even_def Let_def
  by (auto simp: algebra_simps) linarith+

lemma rhe_of_int [simp]: "round_half_even (of_int n) = n"
  by (simp add: round_half_even_def)

lemma rhe_0 [simp]: "round_half_even 0 = 0"
  by (simp add: round_half_even_def)

lemma rhe_mono:
  assumes "x \<le> y"
  shows "round_half_even x \<le> round_half_even y"
proof (cases "\<lfloor>x\<rfloor> = \<lfloor>y\<rfloor>")
  case True
  then show ?thesis
    using assms unfolding round_half_even_def Let_def by auto
next
  case False
  then have "\<lfloor>x\<rfloor> < \<lfloor>y\<rfloor>" using assms floor_mono[OF assms] by linarith
  moreover have "round_half_even x \<le> \<lfloor>x\<rfloor> + 1" using rhe_cases[of x] by auto
  moreover have "\<lfloor>y\<rfloor> \<le> round_half_even y" using rhe_cases[of y] by auto
  ultimately show ?thesis by linarith
qed

lemma rhe_le_int: "x \<le> of_int n \<Longrightarrow> round_half_even x \<le> n"
  using rhe_mono[of x "of_int n"] by simp

lemma rhe_ge_int: "of_int n \<le> x \<Longrightarrow> n \<le> round_half_even x"
  using rhe_mono[of "of_int n" x] by simp


lemma round_to_grid_le:
  assumes "a \<le> of_int n * pow2 e"
  shows "round_to_grid e a \<le> of_int n * pow2 e"
proof -
  have "a / pow2 e \<le> of_int n" using assms by (simp add: pos_divide_le_eq)
  then have "round_half_even (a / pow2 e) \<le> n" by (rule rhe_le_int)
  then have "(of_int (round_half_even (a / pow2 e)) :: rat) \<le> of_int n" by simp
  then show ?thesis unfolding round_to_grid_def by (simp add: mult_right_mono)
qed

lemma round_to_grid_ge:
  assumes "of_int n * pow2 e \<le> a"
  shows "of_int n * pow2 e \<le> round_to_grid e a"
proof -
  have "of_int n \<le> a / pow2 e" using assms by (simp add: pos_le_divide_eq)
  then have "n \<le> round_half_even (a / pow2 e)" by (rule rhe_ge_int)
  then have "(of_int n :: rat) \<le> of_int (round_half_even (a / pow2 e))" by simp
  then show ?thesis unfolding round_to_grid_def by (simp add: mult_right_mono)
qed

lemma pow2_on_grid: "e \<le> k \<Longrightarrow> pow2 k = of_int (2 ^ nat (k - e)) * pow2 e"
  using pow2_add[of "k - e" e] by (simp add: pow2_nat)

lemma round_to_grid_le_pow2: "e \<le> k \<Longrightarrow> a \<le> pow2 k \<Longrightarrow> round_to_grid e a \<le> pow2 k"
  using round_to_grid_le[of a "2 ^ nat (k - e)" e] pow2_on_grid[of e k] by simp

lemma round_to_grid_ge_pow2: "e \<le> k \<Longrightarrow> pow2 k \<le> a \<Longrightarrow> pow2 k \<le> round_to_grid e a"
  using round_to_grid_ge[of "2 ^ nat (k - e)" e a] pow2_on_grid[of e k] by simp

lemma round_to_grid_mono:
  assumes "a \<le> b"
  shows "round_to_grid e a \<le> round_to_grid e b"
proof -
  have "a / pow2 e \<le> b / pow2 e" using assms by (simp add: divide_right_mono less_imp_le)
  then have "round_half_even (a / pow2 e) \<le> round_half_even (b / pow2 e)" by (rule rhe_mono)
  then have "(of_int (round_half_even (a / pow2 e)) :: rat) \<le> of_int (round_half_even (b / pow2 e))"
    by simp
  then show ?thesis unfolding round_to_grid_def by (simp add: mult_right_mono)
qed

lemma round_to_grid_nonneg: "0 \<le> a \<Longrightarrow> 0 \<le> round_to_grid e a"
  using round_to_grid_ge[of 0 e a] by simp

lemma round_to_grid_error: "\<bar>round_to_grid e a - a\<bar> \<le> pow2 e / 2"
proof -
  let ?x = "a / pow2 e"
  have "\<bar>of_int (round_half_even ?x) - ?x\<bar> \<le> 1 / 2"
    using rhe_lower[of ?x] rhe_upper[of ?x] by linarith
  then have "\<bar>of_int (round_half_even ?x) - ?x\<bar> * pow2 e \<le> 1 / 2 * pow2 e"
    by (rule mult_right_mono) simp
  moreover have "\<bar>of_int (round_half_even ?x) - ?x\<bar> * pow2 e = \<bar>round_to_grid e a - a\<bar>"
  proof -
    have "\<bar>of_int (round_half_even ?x) - ?x\<bar> * pow2 e
          = \<bar>(of_int (round_half_even ?x) - ?x) * pow2 e\<bar>"
      by (simp add: abs_mult)
    also have "(of_int (round_half_even ?x) - ?x) * pow2 e = round_to_grid e a - a"
      by (simp add: round_to_grid_def algebra_simps)
    finally show ?thesis .
  qed
  ultimately show ?thesis by simp
qed

lemma round_mag_le_pow2:
  assumes "0 < a" "a \<le> pow2 k" "- 1074 \<le> k"
  shows "round_mag a \<le> pow2 k"
proof -
  have "pow2 (floor_log2 a) \<le> pow2 k"
    using floor_log2_bounds[OF assms(1)] assms(2) by linarith
  then have "floor_log2 a \<le> k" by simp
  then have "max (floor_log2 a - 52) (- 1074) \<le> k" using assms(3) by simp
  then show ?thesis
    unfolding round_mag_def using assms(2) by (rule round_to_grid_le_pow2)
qed

lemma round_mag_nonneg: "0 \<le> a \<Longrightarrow> 0 \<le> round_mag a"
  unfolding round_mag_def by (rule round_to_grid_nonneg)

lemma round_mag_mono:
  assumes "0 < a" "a \<le> b"
  shows "round_mag a \<le> round_mag b"
proof -
  have b: "0 < b" using assms by simp
  let ?ka = "floor_log2 a" and ?kb = "floor_log2 b"
  let ?ea = "max (?ka - 52) (- 1074)" and ?eb = "max (?kb - 52) (- 1074)"
  have ba: "pow2 ?ka \<le> a" "a < pow2 (?ka + 1)" using floor_log2_bounds[OF assms(1)] by simp_all
  have bb: "pow2 ?kb \<le> b" "b < pow2 (?kb + 1)" using floor_log2_bounds[OF b] by simp_all
  have "pow2 ?ka < pow2 (?kb + 1)" using ba(1) assms(2) bb(2) by linarith
  then have k: "?ka \<le> ?kb" by simp
  show ?thesis
  proof (cases "?ea = ?eb")
    case True
    then show ?thesis unfolding round_mag_def using assms(2) by (simp add: round_to_grid_mono)
  next
    case False
    then have lt: "?ka < ?kb" and eb: "?eb = ?kb - 52" and ea: "?ea < ?kb - 52"
      using k by auto
    have "a \<le> pow2 ?kb"
    proof -
      have "pow2 (?ka + 1) \<le> pow2 ?kb" using lt by simp
      then show ?thesis using ba(2) by linarith
    qed
    then have "round_to_grid ?ea a \<le> pow2 ?kb"
      using ea by (intro round_to_grid_le_pow2) auto
    moreover have "pow2 ?kb \<le> round_to_grid ?eb b"
      using bb(1) eb by (intro round_to_grid_ge_pow2) auto
    ultimately show ?thesis unfolding round_mag_def by linarith
  qed
qed

lemma round_mag_error:
  assumes "0 < a" "a < pow2 k" "- 1021 \<le> k"
  shows "\<bar>round_mag a - a\<bar> \<le> pow2 (k - 54)"
proof -
  have "pow2 (floor_log2 a) < pow2 k"
    using floor_log2_bounds[OF assms(1)] assms(2) by linarith
  then have "floor_log2 a < k" by simp
  then have e: "max (floor_log2 a - 52) (- 1074) \<le> k - 53" using assms(3) by simp
  have "\<bar>round_mag a - a\<bar> \<le> pow2 (max (floor_log2 a - 52) (- 1074)) / 2"
    unfolding round_mag_def by (rule round_to_grid_error)
  also have "\<dots> \<le> pow2 (k - 53) / 2" using e by simp
  also have "\<dots> = pow2 (k - 54)"
    using pow2_add[of "k - 54" 1] by (simp add: pow2_def)
  finally show ?thesis .
qed

lemma round_double_0 [simp]: "round_double 0 = Finite 0"
  by (simp add: round_double_def)

lemma round_double_finite:
  assumes "\<bar>q\<bar> \<le> pow2 1023"
  shows "round_double q = Finite (if 0 < q then round_mag \<bar>q\<bar> else - round_mag \<bar>q\<bar>)"
proof (cases "q = 0")
  case True
  then show ?thesis by (simp add: round_double_def round_mag_def round_to_grid_def)
next
  case False
  then have "0 < \<bar>q\<bar>" by simp
  then have "round_mag \<bar>q\<bar> \<le> pow2 1023" using assms by (rule round_mag_le_pow2) simp
  moreover have "pow2 1023 < pow2 1024" by simp
  ultimately have "\<not> pow2 1024 \<le> round_mag \<bar>q\<bar>" by linarith
  then show ?thesis using False by (simp add: round_double_def Let_def)
qed

lemma round_double_pos:
  assumes "pow2 k \<le> q" "q < pow2 (k + 1)" "- 1022 \<le> k" "k \<le> 1022"
  shows "round_double q = Finite (round_to_grid (k - 52) q)"
proof -
  have q: "0 < q" using assms(1) pow2_pos[of k] by linarith
  have fl: "floor_log2 q = k" using q assms(1,2) by (rule floor_log2_unique)
  have "pow2 (k + 1) \<le> pow2 1023" using assms(4) by simp
  then have "\<bar>q\<bar> \<le> pow2 1023" using q assms(2) by linarith
  then have "round_double q = Finite (round_mag \<bar>q\<bar>)" using q by (simp add: round_double_finite)
  also have "round_mag \<bar>q\<bar> = round_to_grid (k - 52) q"
  proof -
    have "max (k - 52) (- 1074) = k - 52" using assms(3) by simp
    then show ?thesis using q fl by (simp add: round_mag_def)
  qed
  finally show ?thesis .
qed

lemma round_double_minus: "round_double (- q) = fneg (round_double q)"
  by (simp add: round_double_def Let_def)

lemma round_double_mono: "q \<le> r \<Longrightarrow> fle (round_double q) (round_double r)"
proof -
  assume qr: "q \<le> r"
  have pos: "fle (round_double a) (round_double b)" if "0 < a" "a \<le> b" for a b
  proof -
    have "round_mag a \<le> round_mag b" using that by (rule round_mag_mono)
    then show ?thesis using that by (auto simp: round_double_def Let_def)
  qed
  have neg: "fle (round_double a) (round_double b)" if "b < 0" "a \<le> b" for a b
  proof -
    have "round_mag (- b) \<le> round_mag (- a)" using that by (intro round_mag_mono) auto
    then show ?thesis using that by (auto simp: round_double_def Let_def)
  qed
  have z1: "fle (Finite 0) (round_double b)" if "0 < b" for b
    using that round_mag_nonneg[of b] by (auto simp: round_double_def Let_def)
  have z2: "fle (round_double a) (Finite 0)" if "a < 0" for a
    using that round_mag_nonneg[of "- a"] by (auto simp: round_double_def Let_def)
  have mixed: "fle (round_double a) (round_double b)" if "a < 0" "0 < b" for a b
    using z1[OF that(2)] z2[OF that(1)]
    by (cases "round_double a"; cases "round_double b") auto
  consider "0 < q" | "r < 0" | "q = 0" "r = 0" | "q = 0" "0 < r" | "q < 0" "r = 0" | "q < 0" "0 < r"
    using qr by linarith
  then show ?thesis
    by cases (auto simp: pos neg qr z1 z2 mixed)
qed


lemma floor_div_numeral: "\<lfloor>(numeral a :: rat) / numeral b\<rfloor> = numeral a div numeral b"
  using floor_divide_of_int_eq[of "numeral a" "numeral b", where ?'a = rat] by simp

lemmas round_eval = pow2_def round_to_grid_def round_half_even_def Let_def floor_div_numeral

section \<open>Facts about the model\<close>

subsection \<open>Floats the program computes\<close>

lemma is_finite_iff: "is_finite x \<longleftrightarrow> (\<exists>q. x = Finite q)"
  by (cases x) auto

lemma int_truediv_finite:
  assumes "int_truediv a b = Inr x"
  shows "is_finite x"
proof -
  let ?r = "round_double (of_int a / of_int b)"
  have "b \<noteq> 0" using assms by (auto simp: int_truediv_def split: if_splits)
  then have *: "(case ?r of Finite q \<Rightarrow> Inr (Finite q) | _ \<Rightarrow> Inl OverflowError) = Inr x"
    using assms by (simp add: int_truediv_def)
  show ?thesis
  proof (cases ?r)
    case (Finite q)
    with * have "x = Finite q" by simp
    then show ?thesis by simp
  qed (use * in simp_all)
qed

lemma int_truediv_Inr:
  assumes "int_truediv a b = Inr x"
  shows "b \<noteq> 0 \<and> round_double (of_int a / of_int b) = x"
proof -
  have b: "b \<noteq> 0" using assms by (auto simp: int_truediv_def split: if_splits)
  then show ?thesis
    using assms
    by (cases "round_double (of_int a / of_int b)") (simp_all add: int_truediv_def)
qed

lemma int_truediv_60_bounded:
  assumes "\<bar>a\<bar> \<le> 60 * 2 ^ 1023"
  shows "int_truediv a 60 = Inr (round_double (of_int a / 60))"
proof -
  have "\<bar>of_int a :: rat\<bar> \<le> of_int (60 * 2 ^ 1023)"
    using assms by (metis of_int_abs of_int_le_iff)
  also have "\<dots> = 60 * pow2 1023" by (simp add: pow2_def)
  finally have "\<bar>of_int a / 60 :: rat\<bar> \<le> pow2 1023" by simp
  then obtain x where "round_double (of_int a / 60) = Finite x"
    using round_double_finite by blast
  then show ?thesis by (simp add: int_truediv_def)
qed

lemma div_60_fits: "fits_float v \<Longrightarrow> div_60 v = Inr (quotient_60 v)"
proof (cases v)
  case (JInt n)
  then show "fits_float v \<Longrightarrow> div_60 v = Inr (quotient_60 v)"
    by (simp add: div_60_def int_truediv_60_bounded)
next
  case (JFloat x)
  then show "fits_float v \<Longrightarrow> div_60 v = Inr (quotient_60 v)"
    by (cases x) (simp_all add: div_60_def fdiv_int_def)
qed

lemma div_60_int_finite: "is_int v \<Longrightarrow> div_60 v = Inr x \<Longrightarrow> is_finite x"
  by (cases v) (auto simp: div_60_def intro: int_truediv_finite)

lemma round_double_overflow:
  assumes "pow2 1024 \<le> q"
  shows "round_double q = PosInf"
proof -
  have q: "0 < q" using assms pow2_pos[of 1024] by linarith
  let ?k = "floor_log2 q"
  have b: "pow2 ?k \<le> q" "q < pow2 (?k + 1)" using floor_log2_bounds[OF q] by simp_all
  have "pow2 1024 < pow2 (?k + 1)" using assms b(2) by linarith
  then have k: "1024 \<le> ?k" by simp
  then have "max (?k - 52) (- 1074) \<le> ?k" by simp
  then have "pow2 ?k \<le> round_mag q"
    unfolding round_mag_def using b(1) by (rule round_to_grid_ge_pow2)
  moreover have "pow2 1024 \<le> pow2 ?k" using k by simp
  ultimately have "pow2 1024 \<le> round_mag q" by linarith
  then have "pow2 1024 \<le> round_mag \<bar>q\<bar>" using q by simp
  then show ?thesis using q by (simp add: round_double_def Let_def)
qed

lemma sixty_le_pow2: "60 \<le> pow2 1023"
proof -
  have "(60::rat) \<le> pow2 6" by (simp add: pow2_def)
  also have "\<dots> \<le> pow2 1023" by simp
  finally show ?thesis .
qed

lemma float_of_int_bounded:
  assumes "\<bar>i\<bar> \<le> 2 ^ 1023"
  shows "float_of_int i = Inr (round_double (of_int i))"
proof -
  have "\<bar>of_int i :: rat\<bar> \<le> of_int (2 ^ 1023)"
    using assms by (metis of_int_abs of_int_le_iff)
  also have "\<dots> = pow2 1023" by (simp add: pow2_def)
  finally obtain x where "round_double (of_int i) = Finite x"
    using round_double_finite by blast
  then show ?thesis by (simp add: float_of_int_def)
qed

lemma wait_before_hours:
  "int_truediv WAIT_BEFORE 60 = Inr (Finite (6004799503160661 / 72057594037927936))"
  using round_double_pos[of "- 4" "1 / 12"]
  by (simp add: int_truediv_def WAIT_BEFORE_def round_eval)

lemma pause_point_total:
  "pause_point start = Inr (fsub start (Finite (6004799503160661 / 72057594037927936)))"
  by (simp add: pause_point_def wait_before_hours)

lemma flt_not_fle: "flt a b \<Longrightarrow> \<not> fle b a"
  by (cases a; cases b) auto

lemma fle_not_flt: "fle a b \<Longrightarrow> \<not> flt b a"
  by (cases a; cases b) auto

lemma fge_int_mono: "fle a b \<Longrightarrow> fge_int a n \<Longrightarrow> fge_int b n"
  by (cases a; cases b) auto

subsection \<open>Labels never fail on finite hours\<close>

lemma fmod1_finite: "\<exists>y. fmod1 (Finite x) = Finite y \<and> 0 \<le> y \<and> y \<le> 1"
proof (cases "0 \<le> x")
  case True
  have "x - of_int \<lfloor>x\<rfloor> \<le> 1" by linarith
  moreover have "0 \<le> x - of_int \<lfloor>x\<rfloor>" by linarith
  ultimately show ?thesis using True by simp
next
  case False
  let ?m = "x - of_int \<lceil>x\<rceil>"
  show ?thesis
  proof (cases "?m = 0")
    case True
    then show ?thesis using False by simp
  next
    case nz: False
    have m: "0 < ?m + 1" "?m + 1 \<le> 1" by linarith+
    have le: "\<bar>?m + 1\<bar> \<le> pow2 1023"
    proof -
      have "\<bar>?m + 1\<bar> \<le> pow2 0" using m by simp
      also have "\<dots> \<le> pow2 1023" by (simp del: pow2_0)
      finally show ?thesis .
    qed
    have "round_double (?m + 1) = Finite (round_mag \<bar>?m + 1\<bar>)"
      using round_double_finite[OF le] m(1) by simp
    moreover have "round_mag \<bar>?m + 1\<bar> \<le> pow2 0"
      using m by (intro round_mag_le_pow2) auto
    moreover have "0 \<le> round_mag \<bar>?m + 1\<bar>" by (rule round_mag_nonneg) simp
    ultimately show ?thesis using False nz by (simp add: Let_def)
  qed
qed

lemma hhmm_finite: "is_finite x \<Longrightarrow> \<exists>s. hhmm x = Inr s"
proof -
  assume "is_finite x"
  then obtain q where x: "x = Finite q" by (auto simp: is_finite_iff)
  obtain y where y: "fmod1 (Finite q) = Finite y" "0 \<le> y" "y \<le> 1"
    using fmod1_finite[of q] by blast
  have "\<bar>y * 60\<bar> \<le> pow2 1023" using y sixty_le_pow2 by (simp add: abs_mult)
  then obtain z where "round_double (y * 60) = Finite z"
    using round_double_finite by blast
  then show ?thesis using x y by (simp add: hhmm_def)
qed

lemma window_name_finite:
  "is_finite a \<Longrightarrow> is_finite b \<Longrightarrow> \<exists>s. window_name a b = Inr s"
  using hhmm_finite[of a] hhmm_finite[of b] by (auto simp: window_name_def)

lemma log_intervals_total:
  "\<forall>iv \<in> set outs. finite_outage iv \<Longrightarrow> \<exists>ls. log_intervals outs = Inr ls"
proof (induction outs)
  case Nil
  then show ?case by simp
next
  case (Cons iv outs)
  obtain a b where iv: "iv = (a, b)" by (cases iv)
  from Cons.prems iv have "is_finite a" "is_finite b" by (simp_all add: finite_outage_def)
  then obtain sa sb where "hhmm a = Inr sa" "hhmm b = Inr sb"
    using hhmm_finite by blast
  moreover obtain ls where "log_intervals outs = Inr ls" using Cons by auto
  ultimately show ?case using iv by simp
qed

lemma parse_slots_finite:
  "list_all int_minutes ss \<Longrightarrow> parse_slots ss = Inr outs \<Longrightarrow>
     \<forall>iv \<in> set outs. finite_outage iv"
proof (induction ss arbitrary: outs)
  case Nil
  then show ?case by simp
next
  case (Cons sl ss)
  have "int_minutes sl" and rest: "list_all int_minutes ss"
    using Cons.prems(1) by simp_all
  then have ints: "is_int (start_minutes sl)" "is_int (end_minutes sl)" "list_all int_minutes ss"
    by (simp_all add: int_minutes_def)
  show ?case
  proof (cases "is_definite sl")
    case False
    then show ?thesis using Cons ints by simp
  next
    case True
    with Cons.prems(2) obtain a b rest where
      a: "div_60 (start_minutes sl) = Inr a" and
      b: "div_60 (end_minutes sl) = Inr b" and
      r: "parse_slots ss = Inr rest" and o: "outs = (a, b) # rest"
      by (auto split: sum.splits)
    have "finite_outage (a, b)"
      using div_60_int_finite[OF ints(1) a] div_60_int_finite[OF ints(2) b]
      by (simp add: finite_outage_def)
    then show ?thesis using Cons.IH[OF ints(3) r] o by simp
  qed
qed

subsection \<open>The hours of a slot\<close>

lemma hours_close:
  assumes "0 \<le> n" "n < 1440"
  shows "\<exists>x. int_truediv n 60 = Inr (Finite x) \<and> 0 \<le> x \<and> \<bar>x - of_int n / 60\<bar> \<le> pow2 (- 49)"
proof (cases "n = 0")
  case True
  then show ?thesis by (simp add: int_truediv_def)
next
  case False
  let ?q = "of_int n / 60 :: rat"
  have q: "0 < ?q" using assms False by simp
  have "of_int n < (1440 :: rat)" using assms(2) by (metis of_int_less_iff of_int_numeral)
  then have "?q < 24" by simp
  also have "(24 :: rat) \<le> pow2 5" by (simp add: pow2_def)
  finally have q5: "?q < pow2 5" .
  have "pow2 5 \<le> pow2 1023" by simp
  then have "\<bar>?q\<bar> \<le> pow2 1023" using q q5 by linarith
  then have r: "round_double ?q = Finite (round_mag ?q)"
    using q by (simp add: round_double_finite)
  have "\<bar>round_mag ?q - ?q\<bar> \<le> pow2 (5 - 54)"
    using q q5 by (rule round_mag_error) simp
  moreover have "0 \<le> round_mag ?q" using q by (intro round_mag_nonneg) simp
  ultimately show ?thesis using r by (simp add: int_truediv_def)
qed

lemma hours_ordered:
  assumes "0 \<le> s" "s < e" "e < 1440"
  shows "\<exists>x y. int_truediv s 60 = Inr (Finite x) \<and> int_truediv e 60 = Inr (Finite y) \<and>
           0 \<le> x \<and> x < y \<and> y < 24"
proof -
  obtain x where x: "int_truediv s 60 = Inr (Finite x)" "0 \<le> x"
      "\<bar>x - of_int s / 60\<bar> \<le> pow2 (- 49)"
    using hours_close[of s] assms by auto
  obtain y where y: "int_truediv e 60 = Inr (Finite y)" "0 \<le> y"
      "\<bar>y - of_int e / 60\<bar> \<le> pow2 (- 49)"
    using hours_close[of e] assms by auto
  have p: "pow2 (- 49) = 1 / 562949953421312" by (simp add: pow2_def)
  have "s + 1 \<le> e" using assms by simp
  then have se: "(of_int s :: rat) + 1 \<le> of_int e"
    by (metis of_int_1 of_int_add of_int_le_iff)
  have "e \<le> 1439" using assms by simp
  then have e: "(of_int e :: rat) \<le> 1439"
    by (metis of_int_le_iff of_int_numeral)
  have "x < y" using x(3) y(3) se unfolding p by linarith
  moreover have "y < 24" using y(3) e unfolding p by linarith
  ultimately show ?thesis using x y by blast
qed

subsection \<open>The loop of the evaluator\<close>

lemma danger_loop_skip:
  "\<forall>iv \<in> set past. already_past ch iv \<Longrightarrow> danger_loop ch (past @ rest) = danger_loop ch rest"
proof (induction past)
  case Nil
  then show ?case by simp
next
  case (Cons iv past)
  obtain s e where iv: "iv = (s, e)" by (cases iv)
  from Cons.prems iv have ap: "already_past ch (s, e)" by simp
  then obtain name where "window_name s e = Inr name"
    using window_name_finite[of s e] by (auto simp: already_past_def finite_outage_def)
  then have "danger_loop ch ((s, e) # past @ rest) = danger_loop ch (past @ rest)"
    using ap by (auto simp: already_past_def split: sum.splits)
  then show ?case using Cons iv by simp
qed

lemma danger_loop_head_before:
  assumes "finite_outage (start, stop)" "pause_point start = Inr pp" "flt ch pp"
  shows "\<exists>name. window_name start stop = Inr name \<and>
     danger_loop ch ((start, stop) # rest) =
       (if fle (minutes_between ch pp) (Finite 1)
        then Inr (True, Some name, Some (minutes_between ch pp))
        else Inr (False, None, None))"
proof -
  obtain name where "window_name start stop = Inr name"
    using assms(1) window_name_finite[of start stop] by (auto simp: finite_outage_def)
  then show ?thesis using assms(2,3) by (simp add: Let_def)
qed

lemma danger_loop_head_inside:
  assumes "finite_outage (start, stop)" "pause_point start = Inr pp" "\<not> flt ch pp" "flt ch stop"
  shows "\<exists>name. window_name start stop = Inr name \<and>
     danger_loop ch ((start, stop) # rest) = Inr (True, Some name, Some (minutes_between ch stop))"
proof -
  obtain name where "window_name start stop = Inr name"
    using assms(1) window_name_finite[of start stop] by (auto simp: finite_outage_def)
  then show ?thesis using assms(2,3,4) by (simp add: Let_def)
qed

declare danger_loop.simps [simp del]

lemma danger_loop_total:
  "\<forall>iv \<in> set outs. finite_outage iv \<Longrightarrow> \<not> isl (danger_loop ch outs)"
proof (induction outs)
  case Nil
  then show ?case by (simp add: danger_loop.simps)
next
  case (Cons iv outs)
  obtain s e where iv: "iv = (s, e)" by (cases iv)
  then obtain name where "window_name s e = Inr name"
    using Cons.prems window_name_finite[of s e] by (auto simp: finite_outage_def)
  then show ?case
    using Cons iv by (simp add: danger_loop.simps pause_point_total Let_def)
qed

lemma current_hour_total:
  assumes "valid_datetime now"
  shows "\<exists>ch. current_hour now = Inr ch"
proof -
  have "\<bar>dt_minute now\<bar> \<le> 60 * 2 ^ 1023" "\<bar>dt_hour now\<bar> \<le> 2 ^ 1023"
    using assms by (simp_all add: valid_datetime_def)
  then show ?thesis
    by (simp add: current_hour_def int_truediv_60_bounded float_of_int_bounded)
qed

text \<open>
  The hypotheses of the theorems on the evaluator hold in every run on a feed with
  integer minutes: a schedule that \<open>fetch_outages\<close> stored from such a feed holds
  finite hours only, and on such a schedule the evaluator returns a signal at every
  valid instant.
\<close>

lemma fetched_schedule_finite:
  assumes "fetch_outages d response now = (ok, d')"
    and "int_feed response (group d)"
    and "\<forall>p l. outages d p = Some l \<longrightarrow> (\<forall>iv \<in> set l. finite_outage iv)"
  shows "\<forall>p l. outages d' p = Some l \<longrightarrow> (\<forall>iv \<in> set l. finite_outage iv)"
proof (cases response)
  case Raises
  then show ?thesis using assms by (simp add: fetch_outages_def)
next
  case (JsonData dat)
  show ?thesis
  proof (cases "dat (group d)")
    case None
    then show ?thesis using assms JsonData by (simp add: fetch_outages_def)
  next
    case (Some gd)
    have ints: "list_all int_minutes (slots_of (today gd))"
        "list_all int_minutes (slots_of (tomorrow gd))"
      using assms(2) JsonData Some by (simp_all add: int_feed_def)
    show ?thesis
      using assms(1,3) JsonData Some parse_slots_finite[OF ints(1)] parse_slots_finite[OF ints(2)]
      by (auto simp: fetch_outages_def Let_def split: sum.splits if_splits)
  qed
qed

text \<open>
  The failures before the assignment of the schedule leave the manager as it was:
  a request or a decoding that raises, a response without the group, a parse that
  raises. On a feed with integer minutes these are the only failures.
\<close>

lemma fetch_raises_keeps: "fetch_outages d Raises now = (False, d)"
  by (simp add: fetch_outages_def)

lemma fetch_group_absent_keeps:
  "data (group d) = None \<Longrightarrow> fetch_outages d (JsonData data) now = (False, d)"
  by (simp add: fetch_outages_def)

lemma fetch_parse_raises_keeps:
  assumes "data (group d) = Some gd"
    and "isl (parse_slots (slots_of (today gd))) \<or> isl (parse_slots (slots_of (tomorrow gd)))"
  shows "fetch_outages d (JsonData data) now = (False, d)"
  using assms by (auto simp: fetch_outages_def split: sum.splits)

lemma fetch_failure_int_feed:
  assumes "int_feed response (group d)" "\<not> fst (fetch_outages d response now)"
  shows "snd (fetch_outages d response now) = d"
proof (cases response)
  case Raises
  then show ?thesis by (simp add: fetch_outages_def)
next
  case (JsonData dat)
  show ?thesis
  proof (cases "dat (group d)")
    case None
    then show ?thesis using JsonData by (simp add: fetch_outages_def)
  next
    case (Some gd)
    have ints: "list_all int_minutes (slots_of (today gd))"
        "list_all int_minutes (slots_of (tomorrow gd))"
      using assms(1) JsonData Some by (simp_all add: int_feed_def)
    show ?thesis
    proof (cases "parse_slots (slots_of (today gd))")
      case (Inl e)
      then show ?thesis using JsonData Some by (simp add: fetch_outages_def)
    next
      case t: (Inr t)
      show ?thesis
      proof (cases "parse_slots (slots_of (tomorrow gd))")
        case (Inl e)
        then show ?thesis using JsonData Some t by (simp add: fetch_outages_def)
      next
        case tm: (Inr tm)
        have "\<forall>iv \<in> set (t @ tm). finite_outage iv"
          using parse_slots_finite[OF ints(1) t] parse_slots_finite[OF ints(2) tm] by auto
        then obtain ls where "log_intervals (t @ tm) = Inr ls"
          using log_intervals_total by blast
        then have "fst (fetch_outages d response now)"
          using JsonData Some t tm by (simp add: fetch_outages_def Let_def)
        then show ?thesis using assms(2) by simp
      qed
    qed
  qed
qed

lemma evaluator_total:
  assumes "valid_datetime now"
    and "\<forall>p l. outages d p = Some l \<longrightarrow> (\<forall>iv \<in> set l. finite_outage iv)"
  shows "\<not> isl (get_next_danger_window d now now_p)"
proof -
  obtain ch where ch: "current_hour now = Inr ch" using current_hour_total[OF assms(1)] by blast
  show ?thesis
  proof (cases "outages d (get_current_period now_p)")
    case None
    then show ?thesis using ch by (simp add: get_next_danger_window_def danger_loop.simps)
  next
    case (Some l)
    then have "\<not> isl (danger_loop ch l)" using assms(2) by (intro danger_loop_total) blast
    then show ?thesis using ch Some by (simp add: get_next_danger_window_def)
  qed
qed

subsection \<open>No TypeError but the missing timestamp\<close>

lemma int_truediv_no_TypeError: "int_truediv a b \<noteq> Inl TypeError"
  by (cases "round_double (of_int a / of_int b)") (auto simp: int_truediv_def)

lemma float_of_int_no_TypeError: "float_of_int i \<noteq> Inl TypeError"
  by (cases "round_double (of_int i)") (auto simp: float_of_int_def)

lemma int_of_float_no_TypeError: "int_of_float x \<noteq> Inl TypeError"
  by (cases x) auto

lemma hhmm_no_TypeError: "hhmm x \<noteq> Inl TypeError"
  using int_of_float_no_TypeError
  by (auto simp: hhmm_def split: sum.splits)

lemma window_name_no_TypeError: "window_name a b \<noteq> Inl TypeError"
  using hhmm_no_TypeError by (auto simp: window_name_def split: sum.splits)

lemma danger_loop_no_TypeError: "danger_loop ch outs \<noteq> Inl TypeError"
proof (induction outs)
  case Nil
  then show ?case by (simp add: danger_loop.simps)
next
  case (Cons iv outs)
  obtain s e where iv: "iv = (s, e)" by (cases iv)
  show ?case
    using Cons window_name_no_TypeError[of s e] unfolding iv
    by (auto simp: danger_loop.simps pause_point_total Let_def split: sum.splits)
qed

lemma evaluator_no_TypeError: "get_next_danger_window d now now_p \<noteq> Inl TypeError"
  using int_truediv_no_TypeError float_of_int_no_TypeError danger_loop_no_TypeError
  by (auto simp: get_next_danger_window_def current_hour_def Let_def split: sum.splits)

lemma fdiv_int_no_TypeError: "fdiv_int x n \<noteq> Inl TypeError"
  by (cases x) (auto simp: fdiv_int_def)

lemma time_paused_Some_no_TypeError: "time_paused now (Some t0) \<noteq> Inl TypeError"
  using int_truediv_no_TypeError fdiv_int_no_TypeError
  by (auto simp: time_paused_def total_seconds_between_def split: sum.splits)

subsection \<open>Elapsed time and the failing resume\<close>

lemma valid_micros_bounds:
  assumes "valid_datetime t"
  shows "0 \<le> dt_micros t" "dt_micros t \<le> 2 ^ 59"
  using assms by (simp_all add: valid_datetime_def dt_micros_def)

lemma time_paused_later:
  assumes "valid_datetime t0" "valid_datetime now'"
    and "dt_micros now \<le> dt_micros now'"
    and "time_paused now (Some t0) = Inr el" "fge_int el n"
  shows "\<exists>el'. time_paused now' (Some t0) = Inr el' \<and> fge_int el' n"
proof -
  let ?d = "of_int (dt_micros now - dt_micros t0) / of_int 1000000 :: rat"
  let ?d' = "of_int (dt_micros now' - dt_micros t0) / of_int 1000000 :: rat"
  from assms(4) obtain secs where
    secs: "int_truediv (dt_micros now - dt_micros t0) 1000000 = Inr secs" and
    el: "fdiv_int secs 60 = Inr el"
    by (auto simp: time_paused_def total_seconds_between_def split: sum.splits)
  have rs: "round_double ?d = secs" using int_truediv_Inr[OF secs] by simp
  obtain s where s: "secs = Finite s"
    using int_truediv_finite[OF secs] by (auto simp: is_finite_iff)
  have el_eq: "el = round_double (s / 60)" using el s by (simp add: fdiv_int_def)
  have "\<bar>dt_micros now' - dt_micros t0\<bar> \<le> 2 ^ 59"
    using valid_micros_bounds[OF assms(1)] valid_micros_bounds[OF assms(2)] by linarith
  then have "\<bar>of_int (dt_micros now' - dt_micros t0) :: rat\<bar> \<le> of_int (2 ^ 59)"
    by (metis of_int_abs of_int_le_iff)
  also have "(of_int (2 ^ 59) :: rat) = pow2 59" by (simp add: pow2_def)
  finally have "\<bar>of_int (dt_micros now' - dt_micros t0) :: rat\<bar> \<le> pow2 59" .
  moreover have "\<bar>?d'\<bar> \<le> \<bar>of_int (dt_micros now' - dt_micros t0) :: rat\<bar>"
    by (simp add: abs_divide divide_le_eq)
  moreover have "pow2 59 \<le> pow2 1023" by simp
  ultimately have "\<bar>?d'\<bar> \<le> pow2 1023" by linarith
  then obtain s' where s': "round_double ?d' = Finite s'"
    using round_double_finite by blast
  have "?d \<le> ?d'" using assms(3) by (simp add: divide_right_mono)
  then have "fle (round_double ?d) (round_double ?d')" by (rule round_double_mono)
  then have "s \<le> s'" using rs s s' by simp
  then have "fle (round_double (s / 60)) (round_double (s' / 60))"
    by (intro round_double_mono) (simp add: divide_right_mono)
  then have "fge_int (round_double (s' / 60)) n"
    using assms(5) el_eq fge_int_mono by blast
  moreover have "time_paused now' (Some t0) = Inr (round_double (s' / 60))"
    using s' by (simp add: time_paused_def total_seconds_between_def int_truediv_def fdiv_int_def)
  ultimately show ?thesis by blast
qed

lemma gcode_heat_eq: "gcode_heat = ''M104 S200'' @ [CHR 0x0A] @ ''M140 S60''"
  by code_simp

lemma resume_print_issued: "resume_issued (snd (resume_print w))"
  by (simp add: resume_print_def resume_issued_def)

lemma cycle_resume_fails:
  assumes "is_paused m"
    and "\<not> isl (get_next_danger_window (dtek_mgr m) (now_window w) (now_period w))"
    and "time_paused (now_wait w) (pause_start_time m) = Inr el" "fge_int el WAIT_AFTER"
    and "\<not> fst (resume_print w)"
  shows "check_and_manage m w = Inr (m, snd (resume_print w))"
proof -
  obtain sg where "get_next_danger_window (dtek_mgr m) (now_window w) (now_period w) = Inr sg"
    using assms(2) by (cases "get_next_danger_window (dtek_mgr m) (now_window w) (now_period w)") auto
  then show ?thesis
    using assms(1,3,4,5)
    by (cases sg; cases "resume_print w") (auto simp: check_and_manage_def)
qed

lemma run_polls_resume_fails:
  assumes "is_paused m" "pause_start_time m = Some t0"
    and "\<forall>v \<in> set vs.
           \<not> isl (get_next_danger_window (dtek_mgr m) (now_window v) (now_period v)) \<and>
           \<not> fst (resume_print v) \<and>
           (\<exists>el. time_paused (now_wait v) (Some t0) = Inr el \<and> fge_int el WAIT_AFTER)"
  shows "run_polls m vs = (m, map (\<lambda>v. snd (resume_print v)) vs)"
  using assms(3)
proof (induction vs)
  case Nil
  then show ?case by simp
next
  case (Cons v vs)
  then obtain el where el: "time_paused (now_wait v) (pause_start_time m) = Inr el"
      "fge_int el WAIT_AFTER"
    using assms(2) by auto
  have c: "check_and_manage m v = Inr (m, snd (resume_print v))"
    using Cons.prems el by (intro cycle_resume_fails[OF assms(1)]) auto
  have "run_polls m vs = (m, map (\<lambda>v. snd (resume_print v)) vs)" using Cons by simp
  then show ?case using c by (simp add: state_after_def scripts_sent_def)
qed

section \<open>Evaluation at concrete instants\<close>

text \<open>
  Each rounding is evaluated by \<open>round_double_pos\<close> at the binary exponent of its
  argument. The values are the binary64 values of the same Python expressions.
\<close>

lemma valid_clock:
  "0 \<le> h \<Longrightarrow> h < 24 \<Longrightarrow> 0 \<le> m \<Longrightarrow> m < 60 \<Longrightarrow> 0 \<le> s \<Longrightarrow> s < 60 \<Longrightarrow> valid_datetime (clock h m s)"
  by (simp add: valid_datetime_def clock_def)

lemma dt_micros_clock:
  "dt_micros (clock h m s) = (739200 * 86400 + h * 3600 + m * 60 + s) * 1000000"
  by (simp add: dt_micros_def clock_def)

lemma round_double_whole_hours:
  "round_double 5 = Finite 5" "round_double 10 = Finite 10" "round_double 16 = Finite 16"
  "round_double 19 = Finite 19" "round_double 22 = Finite 22" "round_double 24 = Finite 24"
  using round_double_pos[of 2 5] round_double_pos[of 3 10] round_double_pos[of 4 16]
    round_double_pos[of 4 19] round_double_pos[of 4 22] round_double_pos[of 4 24]
  by (simp_all add: round_eval)

lemma current_hour_15_54:
  "current_hour (clock 15 54 s) = Inr (Finite (8950904259398861 / 562949953421312))"
  using round_double_pos[of "- 1" "9 / 10"]
        round_double_pos[of "3" "15"]
        round_double_pos[of "3" "143214468150381773 / 9007199254740992"]
  by (simp add: clock_def current_hour_def int_truediv_def float_of_int_def round_eval)

lemma current_hour_15_50:
  "current_hour (clock 15 50 s) = Inr (Finite (8913374262504107 / 562949953421312))"
  using round_double_pos[of "- 1" "5 / 6"]
        round_double_pos[of "3" "15"]
        round_double_pos[of "3" "142613988200065707 / 9007199254740992"]
  by (simp add: clock_def current_hour_def int_truediv_def float_of_int_def round_eval)

lemma current_hour_15_53:
  "current_hour (clock 15 53 s) = Inr (Finite (2235380440043793 / 140737488355328))"
  using round_double_pos[of "- 1" "53 / 60"]
        round_double_pos[of "3" "15"]
        round_double_pos[of "3" "35766087040700689 / 2251799813685248"]
  by (simp add: clock_def current_hour_def int_truediv_def float_of_int_def round_eval)

lemma current_hour_17_30:
  "current_hour (clock 17 30 s) = Inr (Finite (35 / 2))"
  using round_double_pos[of "- 1" "1 / 2"]
        round_double_pos[of "4" "17"]
        round_double_pos[of "4" "35 / 2"]
  by (simp add: clock_def current_hour_def int_truediv_def float_of_int_def round_eval)

lemma current_hour_16_4:
  "current_hour (clock 16 4 s) = Inr (Finite (4522364625817873 / 281474976710656))"
  using round_double_pos[of "- 4" "1 / 15"]
        round_double_pos[of "4" "16"]
        round_double_pos[of "4" "1157725344209375505 / 72057594037927936"]
  by (simp add: clock_def current_hour_def int_truediv_def float_of_int_def round_eval)

lemma current_hour_16_5:
  "current_hour (clock 16 5 s) = Inr (Finite (4527055875429717 / 281474976710656))"
  using round_double_pos[of "- 4" "1 / 12"]
        round_double_pos[of "4" "16"]
        round_double_pos[of "4" "1158926304110007637 / 72057594037927936"]
  by (simp add: clock_def current_hour_def int_truediv_def float_of_int_def round_eval)

lemma current_hour_16_6:
  "current_hour (clock 16 6 s) = Inr (Finite (2265873562520781 / 140737488355328))"
  using round_double_pos[of "- 4" "1 / 10"]
        round_double_pos[of "4" "16"]
        round_double_pos[of "4" "580063632005319885 / 36028797018963968"]
  by (simp add: clock_def current_hour_def int_truediv_def float_of_int_def round_eval)

lemma pause_point_8:
  "pause_point (Finite 8) = Inr (Finite (8913374262504107 / 1125899906842624))"
  using round_double_pos[of "2" "570455952800262827 / 72057594037927936"]
  by (simp add: pause_point_total fsub_def round_eval)

lemma pause_point_16:
  "pause_point (Finite 16) = Inr (Finite (8960286758622549 / 562949953421312))"
  using round_double_pos[of "3" "1146916705103686315 / 72057594037927936"]
  by (simp add: pause_point_total fsub_def round_eval)

lemma minutes_15_54:
  "minutes_between (Finite (8950904259398861 / 562949953421312)) (Finite (8960286758622549 / 562949953421312)) = Finite (17592186044415 / 17592186044416)"
  using round_double_pos[of "- 6" "1172812402961 / 70368744177664"]
        round_double_pos[of "- 1" "17592186044415 / 17592186044416"]
  by (simp add: minutes_between_def fsub_def round_eval)

lemma minutes_15_50:
  "minutes_between (Finite (8913374262504107 / 562949953421312)) (Finite (8960286758622549 / 562949953421312)) = Finite (351843720888315 / 70368744177664)"
  using round_double_pos[of "- 4" "23456248059221 / 281474976710656"]
        round_double_pos[of "2" "351843720888315 / 70368744177664"]
  by (simp add: minutes_between_def fsub_def round_eval)

lemma minutes_15_53:
  "minutes_between (Finite (2235380440043793 / 140737488355328)) (Finite (8960286758622549 / 562949953421312)) = Finite (281474976710655 / 140737488355328)"
  using round_double_pos[of "- 5" "18764998447377 / 562949953421312"]
        round_double_pos[of "0" "281474976710655 / 140737488355328"]
  by (simp add: minutes_between_def fsub_def round_eval)

lemma minutes_17_30:
  "minutes_between (Finite (35 / 2)) (Finite 19) = Finite 90"
  using round_double_pos[of "0" "3 / 2"]
        round_double_pos[of "6" "90"]
  by (simp add: minutes_between_def fsub_def round_eval)

lemma minutes_16_4:
  "minutes_between (Finite (4522364625817873 / 281474976710656)) (Finite 19) = Finite 176"
  using round_double_pos[of "1" "825659931684591 / 281474976710656"]
        round_double_pos[of "7" "12384898975268865 / 70368744177664"]
  by (simp add: minutes_between_def fsub_def round_eval)

lemma minutes_16_5:
  "minutes_between (Finite (4527055875429717 / 281474976710656)) (Finite 19) = Finite (3078632557772801 / 17592186044416)"
  using round_double_pos[of "1" "820968682072747 / 281474976710656"]
        round_double_pos[of "7" "12314530231091205 / 70368744177664"]
  by (simp add: minutes_between_def fsub_def round_eval)

lemma minutes_16_6:
  "minutes_between (Finite (2265873562520781 / 140737488355328)) (Finite 19) = Finite (6122080743456765 / 35184372088832)"
  using round_double_pos[of "1" "408138716230451 / 140737488355328"]
        round_double_pos[of "7" "6122080743456765 / 35184372088832"]
  by (simp add: minutes_between_def fsub_def round_eval)

lemma time_paused_16_4_59:
  "time_paused (clock 16 4 59) (Some (clock 15 55 0)) = Inr (Finite (5620117034989431 / 562949953421312))"
  using round_double_pos[of "9" "599"]
        round_double_pos[of "3" "599 / 60"]
  by (simp add: time_paused_def total_seconds_between_def dt_micros_def clock_def int_truediv_def fdiv_int_def round_eval)

lemma time_paused_16_5_0:
  "time_paused (clock 16 5 0) (Some (clock 15 55 0)) = Inr (Finite 10)"
  using round_double_pos[of "9" "600"]
        round_double_pos[of "3" "10"]
  by (simp add: time_paused_def total_seconds_between_def dt_micros_def clock_def int_truediv_def fdiv_int_def round_eval)

lemma time_paused_16_6_0:
  "time_paused (clock 16 6 0) (Some (clock 15 55 0)) = Inr (Finite 11)"
  using round_double_pos[of "9" "660"]
        round_double_pos[of "3" "11"]
  by (simp add: time_paused_def total_seconds_between_def dt_micros_def clock_def int_truediv_def fdiv_int_def round_eval)

lemma fmt_02d_vals:
  "fmt_02d 0 = ''00''" "fmt_02d 8 = ''08''" "fmt_02d 12 = ''12''"
  "fmt_02d 16 = ''16''" "fmt_02d 19 = ''19''"
  by code_simp+

lemma hhmm_whole_hour:
  "0 \<le> h \<Longrightarrow> hhmm (Finite (of_int h)) = Inr (fmt_02d h @ '':'' @ fmt_02d 0)"
  by (simp add: hhmm_def)

lemma window_name_16_19: "window_name (Finite 16) (Finite 19) = Inr ''16:00-19:00''"
  using hhmm_whole_hour[of 16] hhmm_whole_hour[of 19]
  by (simp add: window_name_def fmt_02d_vals)

lemma window_name_8_12: "window_name (Finite 8) (Finite 12) = Inr ''08:00-12:00''"
  using hhmm_whole_hour[of 8] hhmm_whole_hour[of 12]
  by (simp add: window_name_def fmt_02d_vals)

lemma evaluator_15_54:
  "get_next_danger_window one_window (clock 15 54 s) (clock 15 54 s') =
     Inr (True, Some ''16:00-19:00'', Some (Finite (17592186044415 / 17592186044416)))"
  by (simp add: get_next_danger_window_def current_hour_15_54 get_current_period_def
        clock_def[of 15 54 s'] one_window_def pause_point_16 window_name_16_19 minutes_15_54
        danger_loop.simps)

lemma evaluator_15_50:
  "get_next_danger_window one_window (clock 15 50 s) (clock 15 50 s') = Inr (False, None, None)"
  by (simp add: get_next_danger_window_def current_hour_15_50 get_current_period_def
        clock_def[of 15 50 s'] one_window_def pause_point_16 window_name_16_19 minutes_15_50
        danger_loop.simps)

lemma evaluator_16_4:
  "get_next_danger_window one_window (clock 16 4 s) (clock 16 4 s') =
     Inr (True, Some ''16:00-19:00'', Some (Finite 176))"
  by (simp add: get_next_danger_window_def current_hour_16_4 get_current_period_def
        clock_def[of 16 4 s'] one_window_def pause_point_16 window_name_16_19 minutes_16_4
        danger_loop.simps)

lemma evaluator_16_5:
  "get_next_danger_window one_window (clock 16 5 s) (clock 16 5 s') =
     Inr (True, Some ''16:00-19:00'', Some (Finite (3078632557772801 / 17592186044416)))"
  by (simp add: get_next_danger_window_def current_hour_16_5 get_current_period_def
        clock_def[of 16 5 s'] one_window_def pause_point_16 window_name_16_19 minutes_16_5
        danger_loop.simps)

lemma evaluator_16_6:
  "get_next_danger_window one_window (clock 16 6 s) (clock 16 6 s') =
     Inr (True, Some ''16:00-19:00'', Some (Finite (6122080743456765 / 35184372088832)))"
  by (simp add: get_next_danger_window_def current_hour_16_6 get_current_period_def
        clock_def[of 16 6 s'] one_window_def pause_point_16 window_name_16_19 minutes_16_6
        danger_loop.simps)

lemma cycle_pause:
  "check_and_manage idle_mgr (calm_world (clock 15 54 30)) =
     Inr (idle_mgr\<lparr>is_paused := True, pause_start_time := Some (clock 15 54 30),
                    current_outage := Some ''16:00-19:00''\<rparr>,
          [gcode_pause, gcode_park])"
  by (simp add: check_and_manage_def idle_mgr_def calm_world_def evaluator_15_54
        pause_print_def set_heaters_off_def)

lemma cycle_wait:
  "check_and_manage paused_mgr (calm_world (clock 16 4 59)) = Inr (paused_mgr, [])"
  by (simp add: check_and_manage_def paused_mgr_def calm_world_def evaluator_16_4
        time_paused_16_4_59 WAIT_AFTER_def)

lemma cycle_resume:
  "check_and_manage paused_mgr (calm_world (clock 16 5 0)) =
     Inr (paused_mgr\<lparr>is_paused := False, pause_start_time := None, current_outage := None\<rparr>,
          [gcode_heat, gcode_resume])"
  by (simp add: check_and_manage_def paused_mgr_def calm_world_def evaluator_16_5
        time_paused_16_5_0 WAIT_AFTER_def resume_print_def)

lemma parse_overflow: "parse_slots [mk_slot ''Definite'' huge_minutes 0] = Inl OverflowError"
proof -
  have "round_double (2 ^ 1024) = PosInf"
    by (rule round_double_overflow) (simp add: pow2_def)
  then show ?thesis
    by (simp add: is_definite_def mk_slot_def start_minutes_def div_60_def int_truediv_def
          huge_minutes_def)
qed

lemma parse_inf:
  "parse_slots [\<lparr>slot_type = Some ''Definite'', slot_start = Some (JFloat PosInf),
                 slot_end = Some (JInt 0)\<rparr>] = Inr [(PosInf, Finite 0)]"
  by (simp add: is_definite_def start_minutes_def end_minutes_def div_60_def fdiv_int_def
        int_truediv_def)

lemma log_inf: "log_intervals [(PosInf, Finite 0)] = Inl OverflowError"
  by (simp add: hhmm_def)

section \<open>The claims\<close>

subsection \<open>C1: the scenario of the window 16:00-19:00\<close>

text \<open>
  Claim C1, as stated: at 15:54:30 the evaluator reports 0.5 minutes until the pause.
  The evaluator reads only the hour and the minute of the clock, so the 30 seconds do
  not count: it reports 0.9999999999999432, one minute up to rounding.
\<close>

theorem C1_counterexample:
  "get_next_danger_window one_window (clock 15 54 30) (clock 15 54 30) =
     Inr (True, Some ''16:00-19:00'', Some (Finite (17592186044415 / 17592186044416))) \<and>
   Finite (17592186044415 / 17592186044416) \<noteq> Finite (1 / 2)"
  by (simp add: evaluator_15_54)

text \<open>
  Claim C1, amended. With \<open>WAIT_BEFORE = 5\<close> and the single window 16:00-19:00, the
  pause point is 15.916666666666666 (15:55). At any instant of the minute 15:54,
  15:54:30 included, the evaluator returns \<open>must_act = true\<close> with the window label and
  0.9999999999999432 minutes. At any instant of the minute 15:50 it returns
  \<open>must_act = false\<close> with no label and no minutes; the \<open>minutes_until_pause\<close> it
  computed on the way is 4.999999999999929.
\<close>

theorem C1_scenario:
  "pause_point (Finite 16) = Inr (Finite (8960286758622549 / 562949953421312)) \<and>
   get_next_danger_window one_window (clock 15 54 s) (clock 15 54 s') =
     Inr (True, Some ''16:00-19:00'', Some (Finite (17592186044415 / 17592186044416))) \<and>
   get_next_danger_window one_window (clock 15 50 s) (clock 15 50 s') = Inr (False, None, None) \<and>
   current_hour (clock 15 50 s) = Inr (Finite (8913374262504107 / 562949953421312)) \<and>
   minutes_between (Finite (8913374262504107 / 562949953421312))
     (Finite (8960286758622549 / 562949953421312)) = Finite (351843720888315 / 70368744177664)"
  by (simp add: pause_point_16 evaluator_15_54 evaluator_15_50 current_hour_15_50 minutes_15_50)

subsection \<open>C2: the imminent threshold\<close>

text \<open>
  Claim C2. When the hour of day is strictly before the pause point of the first
  interval that is not already past, the evaluator answers from that interval alone:
  \<open>must_act\<close> is true exactly when \<open>(pause_point - current_hour) * 60 \<le> 1.0\<close>, and
  otherwise it is false with no window and no minutes. The intervals after it do not
  occur in the answer. The hours stored from a feed with integer minutes are finite
  (\<open>fetched_schedule_finite\<close>) and the hour of a valid instant exists
  (\<open>current_hour_total\<close>), which is all that \<open>finite_outage\<close> and the first
  hypothesis ask.
\<close>

theorem C2_imminent_threshold:
  assumes "current_hour now = Inr ch"
    and "outages d (get_current_period now_p) = Some (past @ (start, stop) # rest)"
    and "\<forall>iv \<in> set past. already_past ch iv"
    and "finite_outage (start, stop)"
    and "pause_point start = Inr pp"
    and "flt ch pp"
  shows "\<exists>name. window_name start stop = Inr name \<and>
     get_next_danger_window d now now_p =
       (if fle (minutes_between ch pp) (Finite 1)
        then Inr (True, Some name, Some (minutes_between ch pp))
        else Inr (False, None, None))"
proof -
  have "get_next_danger_window d now now_p = danger_loop ch (past @ (start, stop) # rest)"
    using assms(1,2) by (simp add: get_next_danger_window_def Let_def)
  then have "get_next_danger_window d now now_p = danger_loop ch ((start, stop) # rest)"
    using danger_loop_skip[OF assms(3)] by simp
  then show ?thesis
    using danger_loop_head_before[OF assms(4,5,6), of rest] by simp
qed

text \<open>
  The theorem on the day with two windows, the window 08:00-12:00 being past: at 15:53
  the pause point of 16:00-19:00 is 1.999999999999993 minutes ahead and the evaluator
  answers \<open>must_act = false\<close>; at 15:54 it is 0.9999999999999432 minutes ahead and the
  evaluator answers \<open>must_act = true\<close>.
\<close>

theorem C2_imminent_threshold_witness:
  "current_hour (clock 15 53 0) = Inr (Finite (2235380440043793 / 140737488355328)) \<and>
   already_past (Finite (2235380440043793 / 140737488355328)) (Finite 8, Finite 12) \<and>
   flt (Finite (2235380440043793 / 140737488355328)) (Finite (8960286758622549 / 562949953421312)) \<and>
   \<not> fle (minutes_between (Finite (2235380440043793 / 140737488355328))
            (Finite (8960286758622549 / 562949953421312))) (Finite 1) \<and>
   get_next_danger_window two_windows (clock 15 53 0) (clock 15 53 0) = Inr (False, None, None) \<and>
   fle (minutes_between (Finite (8950904259398861 / 562949953421312))
          (Finite (8960286758622549 / 562949953421312))) (Finite 1) \<and>
   get_next_danger_window two_windows (clock 15 54 0) (clock 15 54 0) =
     Inr (True, Some ''16:00-19:00'', Some (Finite (17592186044415 / 17592186044416)))"
proof -
  let ?ch = "Finite (2235380440043793 / 140737488355328)"
  let ?ch' = "Finite (8950904259398861 / 562949953421312)"
  have past': "\<forall>iv \<in> set [(Finite 8, Finite 12)]. already_past ?ch' iv"
    by (simp add: already_past_def finite_outage_def pause_point_8)
  have outs': "outages two_windows (get_current_period (clock 15 54 0)) =
      Some ([(Finite 8, Finite 12)] @ (Finite 16, Finite 19) # [])"
    by (simp add: two_windows_def get_current_period_def clock_def)
  have before': "flt ?ch' (Finite (8960286758622549 / 562949953421312))" by simp
  have past: "\<forall>iv \<in> set [(Finite 8, Finite 12)]. already_past ?ch iv"
    by (simp add: already_past_def finite_outage_def pause_point_8)
  have outs: "outages two_windows (get_current_period (clock 15 53 0)) =
      Some ([(Finite 8, Finite 12)] @ (Finite 16, Finite 19) # [])"
    by (simp add: two_windows_def get_current_period_def clock_def)
  have fin: "finite_outage (Finite 16, Finite 19)" by (simp add: finite_outage_def)
  have before: "flt ?ch (Finite (8960286758622549 / 562949953421312))" by simp
  have "get_next_danger_window two_windows (clock 15 53 0) (clock 15 53 0) = Inr (False, None, None)"
    using C2_imminent_threshold[OF current_hour_15_53[of 0] outs past fin pause_point_16 before]
    by (simp add: minutes_15_53)
  moreover have "get_next_danger_window two_windows (clock 15 54 0) (clock 15 54 0) =
     Inr (True, Some ''16:00-19:00'', Some (Finite (17592186044415 / 17592186044416)))"
    using C2_imminent_threshold[OF current_hour_15_54[of 0] outs' past' fin pause_point_16 before']
    by (simp add: minutes_15_54 window_name_16_19)
  ultimately show ?thesis
    using past by (simp add: current_hour_15_53 minutes_15_53 minutes_15_54)
qed

subsection \<open>C3: inside the window\<close>

text \<open>
  Claim C3. When all earlier intervals are already past and
  \<open>pause_point \<le> current_hour < end\<close> for the next one, the evaluator returns
  \<open>must_act = true\<close> with the label of that interval and
  \<open>minutes = (end - current_hour) * 60\<close>.
\<close>

theorem C3_inside_window_signal:
  assumes "current_hour now = Inr ch"
    and "outages d (get_current_period now_p) = Some (past @ (start, stop) # rest)"
    and "\<forall>iv \<in> set past. already_past ch iv"
    and "finite_outage (start, stop)"
    and "pause_point start = Inr pp"
    and "fle pp ch"
    and "flt ch stop"
  shows "\<exists>name. window_name start stop = Inr name \<and>
     get_next_danger_window d now now_p = Inr (True, Some name, Some (minutes_between ch stop))"
proof -
  have "get_next_danger_window d now now_p = danger_loop ch (past @ (start, stop) # rest)"
    using assms(1,2) by (simp add: get_next_danger_window_def Let_def)
  then have "get_next_danger_window d now now_p = danger_loop ch ((start, stop) # rest)"
    using danger_loop_skip[OF assms(3)] by simp
  then show ?thesis
    using danger_loop_head_inside[OF assms(4,5) fle_not_flt[OF assms(6)] assms(7), of rest]
    by simp
qed

text \<open>
  The theorem on the day with two windows at 17:30: 90 minutes remain of the window
  16:00-19:00.
\<close>

theorem C3_inside_window_signal_witness:
  "current_hour (clock 17 30 0) = Inr (Finite (35 / 2)) \<and>
   already_past (Finite (35 / 2)) (Finite 8, Finite 12) \<and>
   fle (Finite (8960286758622549 / 562949953421312)) (Finite (35 / 2)) \<and>
   flt (Finite (35 / 2)) (Finite 19) \<and>
   get_next_danger_window two_windows (clock 17 30 0) (clock 17 30 0) =
     Inr (True, Some ''16:00-19:00'', Some (Finite 90))"
proof -
  let ?ch = "Finite (35 / 2)"
  have past: "\<forall>iv \<in> set [(Finite 8, Finite 12)]. already_past ?ch iv"
    by (simp add: already_past_def finite_outage_def pause_point_8)
  have outs: "outages two_windows (get_current_period (clock 17 30 0)) =
      Some ([(Finite 8, Finite 12)] @ (Finite 16, Finite 19) # [])"
    by (simp add: two_windows_def get_current_period_def clock_def)
  have fin: "finite_outage (Finite 16, Finite 19)" by (simp add: finite_outage_def)
  have a: "fle (Finite (8960286758622549 / 562949953421312)) ?ch" by simp
  have b: "flt ?ch (Finite 19)" by simp
  have "get_next_danger_window two_windows (clock 17 30 0) (clock 17 30 0) =
     Inr (True, Some ''16:00-19:00'', Some (Finite 90))"
    using C3_inside_window_signal[OF current_hour_17_30[of 0] outs past fin pause_point_16 a b]
    by (simp add: minutes_17_30 window_name_16_19)
  then show ?thesis using past by (simp add: current_hour_17_30)
qed

subsection \<open>C4: no command against the state\<close>

text \<open>
  Claim C4. In one call of \<open>check_and_manage\<close>: a manager that is already paused
  sends no \<open>PAUSE\<close>, whatever the evaluator signals; a manager that is not paused
  sends neither script of the resume; and no call sends both a pause and a resume.
\<close>

theorem C4_no_inconsistent_command:
  "(is_paused m \<longrightarrow> \<not> pause_issued (scripts_sent (check_and_manage m w))) \<and>
   (\<not> is_paused m \<longrightarrow> \<not> resume_issued (scripts_sent (check_and_manage m w))) \<and>
   \<not> (pause_issued (scripts_sent (check_and_manage m w)) \<and>
      resume_issued (scripts_sent (check_and_manage m w)))"
  by (auto simp: check_and_manage_def scripts_sent_def pause_issued_def resume_issued_def
        pause_print_def resume_print_def set_heaters_off_def gcode_heat_eq gcode_pause_def
        gcode_resume_def gcode_park_def
      split: sum.splits option.splits if_splits)

text \<open>
  The theorem at a paused manager whose wait has elapsed, inside the window (the
  evaluator signals \<open>must_act = true\<close>, and only the resume is sent), and at an idle
  manager one minute before the pause point (only the pause and the park are sent).
\<close>

theorem C4_no_inconsistent_command_witness:
  "is_paused paused_mgr \<and>
   scripts_sent (check_and_manage paused_mgr (calm_world (clock 16 5 0))) =
     [gcode_heat, gcode_resume] \<and>
   \<not> pause_issued (scripts_sent (check_and_manage paused_mgr (calm_world (clock 16 5 0)))) \<and>
   \<not> is_paused idle_mgr \<and>
   scripts_sent (check_and_manage idle_mgr (calm_world (clock 15 54 30))) =
     [gcode_pause, gcode_park] \<and>
   \<not> resume_issued (scripts_sent (check_and_manage idle_mgr (calm_world (clock 15 54 30))))"
proof -
  have p: "is_paused paused_mgr" by (simp add: paused_mgr_def)
  have i: "\<not> is_paused idle_mgr" by (simp add: idle_mgr_def)
  show ?thesis
    using C4_no_inconsistent_command[of paused_mgr "calm_world (clock 16 5 0)"]
          C4_no_inconsistent_command[of idle_mgr "calm_world (clock 15 54 30)"] p i
    by (simp add: cycle_resume cycle_pause scripts_sent_def)
qed

subsection \<open>C5: the gate of the resume\<close>

text \<open>
  Claim C5. While paused, \<open>resume_print\<close> is called if and only if the elapsed
  minutes since \<open>pause_start_time\<close> are at least \<open>WAIT_AFTER\<close>, the boundary
  included. The witness is the scenario of the claim: paused at 15:55:00, a poll at
  16:04:59 (elapsed 9.98) sends nothing and a poll at 16:05:00 (elapsed 10.0) attempts
  the resume.
\<close>

theorem C5_resume_gating:
  assumes "is_paused m"
    and "get_next_danger_window (dtek_mgr m) (now_window w) (now_period w) = Inr sg"
    and "time_paused (now_wait w) (pause_start_time m) = Inr elapsed"
  shows "resume_issued (scripts_sent (check_and_manage m w)) \<longleftrightarrow> fge_int elapsed WAIT_AFTER"
  using assms
  by (cases sg)
     (auto simp: check_and_manage_def scripts_sent_def resume_issued_def resume_print_def)

text \<open>
  The scenario: paused at 15:55:00, polls at 16:04:59 and at 16:05:00.
\<close>

theorem C5_resume_gating_witness:
  "is_paused paused_mgr \<and>
   time_paused (clock 16 4 59) (pause_start_time paused_mgr) =
     Inr (Finite (5620117034989431 / 562949953421312)) \<and>
   \<not> resume_issued (scripts_sent (check_and_manage paused_mgr (calm_world (clock 16 4 59)))) \<and>
   time_paused (clock 16 5 0) (pause_start_time paused_mgr) = Inr (Finite 10) \<and>
   resume_issued (scripts_sent (check_and_manage paused_mgr (calm_world (clock 16 5 0))))"
proof -
  have p: "is_paused paused_mgr" by (simp add: paused_mgr_def)
  have e1: "get_next_danger_window (dtek_mgr paused_mgr) (now_window (calm_world (clock 16 4 59)))
      (now_period (calm_world (clock 16 4 59))) = Inr (True, Some ''16:00-19:00'', Some (Finite 176))"
    by (simp add: paused_mgr_def calm_world_def evaluator_16_4)
  have t1: "time_paused (now_wait (calm_world (clock 16 4 59))) (pause_start_time paused_mgr) =
      Inr (Finite (5620117034989431 / 562949953421312))"
    by (simp add: paused_mgr_def calm_world_def time_paused_16_4_59)
  have e2: "get_next_danger_window (dtek_mgr paused_mgr) (now_window (calm_world (clock 16 5 0)))
      (now_period (calm_world (clock 16 5 0))) =
      Inr (True, Some ''16:00-19:00'', Some (Finite (3078632557772801 / 17592186044416)))"
    by (simp add: paused_mgr_def calm_world_def evaluator_16_5)
  have t2: "time_paused (now_wait (calm_world (clock 16 5 0))) (pause_start_time paused_mgr) =
      Inr (Finite 10)"
    by (simp add: paused_mgr_def calm_world_def time_paused_16_5_0)
  show ?thesis
    using C5_resume_gating[OF p e1 t1] C5_resume_gating[OF p e2 t2] p t1 t2
    by (simp add: WAIT_AFTER_def calm_world_def)
qed

subsection \<open>C6: retry without reset\<close>

text \<open>
  Claim C6. A resume that fails once the wait has elapsed leaves the whole manager
  as it was (\<open>is_paused\<close>, \<open>pause_start_time\<close> and \<open>current_outage\<close> included), so
  the timer is not reset; and at every later poll whose clock is not earlier, the
  elapsed time is again at least \<open>WAIT_AFTER\<close> and \<open>resume_print\<close> is called again,
  for as long as it keeps failing: \<open>run_polls\<close> over any such sequence of polls
  sends the scripts of a resume at every one of them and ends in the same manager.
\<close>

theorem C6_retry_without_reset:
  assumes "is_paused m" "pause_start_time m = Some t0" "valid_datetime t0"
    and "time_paused (now_wait w) (Some t0) = Inr elapsed" "fge_int elapsed WAIT_AFTER"
    and "\<forall>v \<in> set (w # ws).
           \<not> isl (get_next_danger_window (dtek_mgr m) (now_window v) (now_period v)) \<and>
           \<not> fst (resume_print v) \<and>
           valid_datetime (now_wait v) \<and> dt_micros (now_wait w) \<le> dt_micros (now_wait v)"
  shows "check_and_manage m w = Inr (m, snd (resume_print w)) \<and>
         run_polls m (w # ws) = (m, map (\<lambda>v. snd (resume_print v)) (w # ws)) \<and>
         (\<forall>v \<in> set (w # ws). resume_issued (snd (resume_print v)))"
proof -
  have later: "\<exists>el. time_paused (now_wait v) (Some t0) = Inr el \<and> fge_int el WAIT_AFTER"
    if "v \<in> set (w # ws)" for v
    using that assms(6) time_paused_later[OF assms(3) _ _ assms(4,5), of "now_wait v"] by auto
  have all: "\<forall>v \<in> set (w # ws).
           \<not> isl (get_next_danger_window (dtek_mgr m) (now_window v) (now_period v)) \<and>
           \<not> fst (resume_print v) \<and>
           (\<exists>el. time_paused (now_wait v) (Some t0) = Inr el \<and> fge_int el WAIT_AFTER)"
    using assms(6) later by blast
  have one: "check_and_manage m w = Inr (m, snd (resume_print w))"
    using assms(1,2,4,5,6) by (intro cycle_resume_fails) auto
  show ?thesis
    using one run_polls_resume_fails[OF assms(1,2) all] resume_print_issued by blast
qed

text \<open>
  The theorem at the manager paused at 15:55:00, with the \<open>RESUME\<close> script failing
  at 16:05:00 and again at 16:06:00: both polls send the heat-up and the \<open>RESUME\<close>,
  and the manager is the same after them.
\<close>

theorem C6_retry_without_reset_witness:
  "is_paused paused_mgr \<and>
   time_paused (clock 16 5 0) (pause_start_time paused_mgr) = Inr (Finite 10) \<and>
   \<not> fst (resume_print (failing_world (clock 16 5 0))) \<and>
   check_and_manage paused_mgr (failing_world (clock 16 5 0)) =
     Inr (paused_mgr, [gcode_heat, gcode_resume]) \<and>
   run_polls paused_mgr [failing_world (clock 16 5 0), failing_world (clock 16 6 0)] =
     (paused_mgr, [[gcode_heat, gcode_resume], [gcode_heat, gcode_resume]])"
proof -
  have p: "is_paused paused_mgr" "pause_start_time paused_mgr = Some (clock 15 55 0)"
    by (simp_all add: paused_mgr_def)
  have v0: "valid_datetime (clock 15 55 0)" by (simp add: valid_clock)
  have t: "time_paused (now_wait (failing_world (clock 16 5 0))) (Some (clock 15 55 0)) =
      Inr (Finite 10)"
    by (simp add: failing_world_def calm_world_def time_paused_16_5_0)
  have g: "fge_int (Finite 10) WAIT_AFTER" by (simp add: WAIT_AFTER_def)
  have all: "\<forall>v \<in> set (failing_world (clock 16 5 0) # [failing_world (clock 16 6 0)]).
           \<not> isl (get_next_danger_window (dtek_mgr paused_mgr) (now_window v) (now_period v)) \<and>
           \<not> fst (resume_print v) \<and>
           valid_datetime (now_wait v) \<and>
           dt_micros (now_wait (failing_world (clock 16 5 0))) \<le> dt_micros (now_wait v)"
    by (simp add: failing_world_def calm_world_def paused_mgr_def evaluator_16_5 evaluator_16_6
          resume_print_def valid_clock dt_micros_clock)
  have rp: "snd (resume_print (failing_world u)) = [gcode_heat, gcode_resume]" for u
    by (simp add: resume_print_def failing_world_def calm_world_def)
  have nf: "\<not> fst (resume_print (failing_world u))" for u
    by (simp add: resume_print_def failing_world_def calm_world_def)
  show ?thesis
    using C6_retry_without_reset[OF p v0 t g all] p rp nf
    by (simp add: time_paused_16_5_0 del: run_polls.simps)
qed

subsection \<open>C7: a failed fetch and the stored schedule\<close>

text \<open>
  Claim C7 says that every failed fetch leaves the stored schedule as it was. The
  failures before the assignment do (\<open>fetch_raises_keeps\<close>,
  \<open>fetch_group_absent_keeps\<close>, \<open>fetch_parse_raises_keeps\<close>), and so does every
  failure on a feed with integer minutes (\<open>fetch_failure_int_feed\<close>). The log loop
  runs after the assignment, inside the same \<open>try\<close>: on the response whose slot
  starts at \<open>1e999\<close> the parse succeeds with the hour \<open>inf\<close>, the schedule 16:00-19:00
  is replaced, \<open>int(inf)\<close> raises in the log loop, and the fetch reports failure. On
  the response whose parse raises, the same manager keeps its schedule.
\<close>

theorem C7_failed_fetch_replaces_schedule:
  "fetch_outages one_window inf_feed (clock 0 0 0) =
     (False,
      one_window\<lparr>outages := [''today'' \<mapsto> [(PosInf, Finite 0)], ''tomorrow'' \<mapsto> []],
                  last_update := Some (clock 0 0 0)\<rparr>) \<and>
   outages one_window ''today'' = Some [(Finite 16, Finite 19)] \<and>
   outages (snd (fetch_outages one_window inf_feed (clock 0 0 0))) ''today'' =
     Some [(PosInf, Finite 0)] \<and>
   fetch_outages one_window overflow_feed (clock 0 0 0) = (False, one_window)"
proof -
  have a: "fetch_outages one_window inf_feed (clock 0 0 0) =
     (False,
      one_window\<lparr>outages := [''today'' \<mapsto> [(PosInf, Finite 0)], ''tomorrow'' \<mapsto> []],
                  last_update := Some (clock 0 0 0)\<rparr>)"
    by (simp add: fetch_outages_def inf_feed_def one_window_def slots_of_def parse_inf log_inf
          del: parse_slots.simps(2) log_intervals.simps)
  have b: "fetch_outages one_window overflow_feed (clock 0 0 0) = (False, one_window)"
    by (simp add: fetch_outages_def overflow_feed_def one_window_def slots_of_def parse_overflow
          del: parse_slots.simps(2))
  show ?thesis
    using b by (simp add: a) (simp add: one_window_def)
qed

subsection \<open>C8: the bounds of a parsed interval\<close>

text \<open>
  Claim C8, as stated: every interval that slot parsing produces has
  \<open>0 \<le> start_hour < end_hour < 24\<close>. The parser checks neither the order nor the
  range of the minutes: the slot 600-300 gives the interval \<open>(10.0, 5.0)\<close>, and a
  slot that ends at midnight, 1320-1440, gives \<open>(22.0, 24.0)\<close>.
\<close>

theorem C8_counterexample:
  "parse_slots [mk_slot ''Definite'' 600 300, mk_slot ''Definite'' 1320 1440] =
     Inr [(Finite 10, Finite 5), (Finite 22, Finite 24)] \<and>
   \<not> flt (Finite 10) (Finite 5) \<and> \<not> flt (Finite 24) (Finite 24)"
  by (simp add: mk_slot_def is_definite_def start_minutes_def end_minutes_def div_60_def
        int_truediv_def round_double_whole_hours)

text \<open>
  Claim C8, amended. The parser adds no check of its own: it produces intervals with
  \<open>0 \<le> start_hour < end_hour < 24\<close> for the slot lists whose \<open>"Definite"\<close> slots
  have \<open>0 \<le> start < end < 1440\<close> in integer minutes, as the feed declares them. The
  order survives the rounding of the two quotients.
\<close>

theorem C8_parsed_bounds:
  assumes "\<forall>sl \<in> set ss. is_definite sl \<longrightarrow>
             (\<exists>s e. start_minutes sl = JInt s \<and> end_minutes sl = JInt e \<and>
                    0 \<le> s \<and> s < e \<and> e < 1440)"
  shows "\<exists>outs. parse_slots ss = Inr outs \<and>
           (\<forall>iv \<in> set outs. fle (Finite 0) (fst iv) \<and> flt (fst iv) (snd iv) \<and>
                              flt (snd iv) (Finite 24))"
  using assms
proof (induction ss)
  case Nil
  then show ?case by simp
next
  case (Cons sl ss)
  then obtain outs where outs: "parse_slots ss = Inr outs"
      "\<forall>iv \<in> set outs. fle (Finite 0) (fst iv) \<and> flt (fst iv) (snd iv) \<and> flt (snd iv) (Finite 24)"
    by auto
  show ?case
  proof (cases "is_definite sl")
    case False
    then show ?thesis using outs by simp
  next
    case True
    then obtain s e where se: "start_minutes sl = JInt s" "end_minutes sl = JInt e"
        "0 \<le> s" "s < e" "e < 1440"
      using Cons.prems by auto
    then obtain x y where "int_truediv s 60 = Inr (Finite x)"
        "int_truediv e 60 = Inr (Finite y)" "0 \<le> x" "x < y" "y < 24"
      using hours_ordered by blast
    then show ?thesis using True outs se by (simp add: div_60_def)
  qed
qed

text \<open>
  The theorem at a list with the slot 960-1140 and a slot that is not definite.
\<close>

theorem C8_parsed_bounds_witness:
  "parse_slots [mk_slot ''Definite'' 960 1140, mk_slot ''Possible'' 1200 600] =
     Inr [(Finite 16, Finite 19)] \<and>
   (\<exists>outs. parse_slots [mk_slot ''Definite'' 960 1140, mk_slot ''Possible'' 1200 600] = Inr outs \<and>
      (\<forall>iv \<in> set outs. fle (Finite 0) (fst iv) \<and> flt (fst iv) (snd iv) \<and>
                         flt (snd iv) (Finite 24)))"
proof -
  have ev: "parse_slots [mk_slot ''Definite'' 960 1140, mk_slot ''Possible'' 1200 600] =
     Inr [(Finite 16, Finite 19)]"
    by (simp add: mk_slot_def is_definite_def start_minutes_def end_minutes_def div_60_def
        int_truediv_def round_double_whole_hours)
  have "\<exists>outs. parse_slots [mk_slot ''Definite'' 960 1140, mk_slot ''Possible'' 1200 600] = Inr outs \<and>
      (\<forall>iv \<in> set outs. fle (Finite 0) (fst iv) \<and> flt (fst iv) (snd iv) \<and>
                         flt (snd iv) (Finite 24))"
    by (rule C8_parsed_bounds)
       (simp add: mk_slot_def is_definite_def start_minutes_def end_minutes_def)
  then show ?thesis using ev by blast
qed

subsection \<open>C9: what slot parsing keeps\<close>

text \<open>
  Claim C9. Slot parsing keeps exactly the slots whose type is \<open>"Definite"\<close>, in the
  order of the input, and maps each of them to \<open>(start / 60, end / 60)\<close>, the binary64
  quotients of its minutes (a missing \<open>start\<close> or \<open>end\<close> counts as 0). For integer
  minutes \<open>quotient_60 (JInt n)\<close> is \<open>round_double (n / 60)\<close>, and \<open>fits_float\<close>
  bounds them by the range in which an \<open>int / 60\<close> fits a float; beyond it the
  division raises \<open>OverflowError\<close>. Minutes that decode to a float are not bounded.
\<close>

theorem C9_parse_slots_definite:
  assumes "\<forall>sl \<in> set ss. is_definite sl \<longrightarrow>
             fits_float (start_minutes sl) \<and> fits_float (end_minutes sl)"
  shows "parse_slots ss =
     Inr (map (\<lambda>sl. (quotient_60 (start_minutes sl), quotient_60 (end_minutes sl)))
              (filter is_definite ss))"
  using assms
proof (induction ss)
  case Nil
  then show ?case by simp
next
  case (Cons sl ss)
  then have ih: "parse_slots ss =
     Inr (map (\<lambda>sl. (quotient_60 (start_minutes sl), quotient_60 (end_minutes sl)))
              (filter is_definite ss))"
    by simp
  show ?case
  proof (cases "is_definite sl")
    case False
    then show ?thesis using ih by simp
  next
    case True
    then have "fits_float (start_minutes sl)" "fits_float (end_minutes sl)"
      using Cons.prems by simp_all
    then show ?thesis
      using True ih by (simp add: div_60_fits)
  qed
qed

text \<open>
  The theorem at two definite slots with integer minutes around one that is not
  definite, followed by a definite slot whose minutes decode to the floats 90.0 and
  \<open>inf\<close>.
\<close>

theorem C9_parse_slots_definite_witness:
  "parse_slots [mk_slot ''Definite'' 960 1140, mk_slot ''Possible'' 600 660,
                mk_slot ''Definite'' 1320 1440,
                \<lparr>slot_type = Some ''Definite'', slot_start = Some (JFloat (Finite 90)),
                 slot_end = Some (JFloat PosInf)\<rparr>] =
     Inr [(Finite 16, Finite 19), (Finite 22, Finite 24), (Finite (3 / 2), PosInf)]"
  using C9_parse_slots_definite[of "[mk_slot ''Definite'' 960 1140, mk_slot ''Possible'' 600 660,
                mk_slot ''Definite'' 1320 1440,
                \<lparr>slot_type = Some ''Definite'', slot_start = Some (JFloat (Finite 90)),
                 slot_end = Some (JFloat PosInf)\<rparr>]"]
    round_double_pos[of 0 "3 / 2"]
  by (simp add: mk_slot_def is_definite_def start_minutes_def end_minutes_def
        round_double_whole_hours round_eval del: parse_slots.simps)

subsection \<open>C10: the coupling of the pause flag and the timestamp\<close>

text \<open>
  Claim C10. The coupling invariant \<open>is_paused\<close> if and only if \<open>pause_start_time\<close>
  is not \<open>None\<close> is preserved by every call of \<open>check_and_manage\<close>, whatever the
  evaluator signals and whatever the scripts return; and from a state that satisfies it
  the call never raises the \<open>TypeError\<close> of subtracting a missing timestamp.
\<close>

theorem C10_coupling_preserved:
  assumes "coupled m"
  shows "coupled (state_after m (check_and_manage m w)) \<and> check_and_manage m w \<noteq> Inl TypeError"
proof (cases "get_next_danger_window (dtek_mgr m) (now_window w) (now_period w)")
  case (Inl e)
  then have "e \<noteq> TypeError" using evaluator_no_TypeError by metis
  then show ?thesis using Inl assms by (simp add: check_and_manage_def state_after_def)
next
  case (Inr sg)
  obtain act name mins where sg: "sg = (act, name, mins)" by (cases sg)
  show ?thesis
  proof (cases "is_paused m")
    case False
    then show ?thesis
      using Inr sg assms
      by (auto simp: check_and_manage_def state_after_def coupled_def pause_print_def)
  next
    case True
    then obtain t0 where t0: "pause_start_time m = Some t0" using assms by (auto simp: coupled_def)
    show ?thesis
      using True Inr sg assms t0 time_paused_Some_no_TypeError[of "now_wait w" t0]
      by (auto simp: check_and_manage_def state_after_def coupled_def resume_print_def
               split: sum.splits)
  qed
qed

text \<open>
  The theorem at the idle manager one minute before the pause point: the cycle pauses
  and stores the timestamp.
\<close>

theorem C10_coupling_preserved_witness:
  "coupled idle_mgr \<and>
   is_paused (state_after idle_mgr (check_and_manage idle_mgr (calm_world (clock 15 54 30)))) \<and>
   coupled (state_after idle_mgr (check_and_manage idle_mgr (calm_world (clock 15 54 30)))) \<and>
   check_and_manage idle_mgr (calm_world (clock 15 54 30)) \<noteq> Inl TypeError"
proof -
  have c: "coupled idle_mgr" by (simp add: coupled_def idle_mgr_def)
  show ?thesis
    using C10_coupling_preserved[OF c, of "calm_world (clock 15 54 30)"] c
    by (simp add: cycle_pause state_after_def)
qed

end
